theory Spec2Isabelle
  imports Complex_Main
begin

section \<open>Shared vocabulary\<close>

type_synonym address = string
type_synonym timestamp = int

text \<open>
  What a route handler can hand to \<open>next\<close> (or answer instead of its normal body):
  the array of validation messages, an \<open>Error\<close> thrown in the handler with its message,
  a rejected promise of a collaborator (record store, reward service, signature
  recovery), and the 406 answer of \<open>generateMessage\<close>.
\<close>

datatype error =
    ValidationErrors "string list"
  | Error string
  | UpstreamFailure
  | RecoverFailure
  | NotAcceptable string

subsection \<open>Strings of the request\<close>

text \<open>
  \<open>String.prototype.toLowerCase\<close> on the ASCII range, which is where the letters of a
  hex-encoded address live.
\<close>

definition lower_char :: "char \<Rightarrow> char" where
  "lower_char c =
     (let n = (of_char c :: nat) in if 65 \<le> n \<and> n \<le> 90 then char_of (n + 32) else c)"

definition toLowerCase :: "string \<Rightarrow> string" where
  "toLowerCase s = map lower_char s"

definition is_digit :: "char \<Rightarrow> bool" where
  "is_digit c = (let n = (of_char c :: nat) in 48 \<le> n \<and> n \<le> 57)"

definition digit_value :: "char \<Rightarrow> nat" where
  "digit_value c = (of_char c :: nat) - 48"

definition digits_value :: "string \<Rightarrow> nat" where
  "digits_value s = foldl (\<lambda>acc c. 10 * acc + digit_value c) 0 s"

text \<open>
  The integer a string denotes when it has the form \<open>[-+]?[0-9]+\<close>, the form
  validator.js's \<open>isInt\<close> accepts with its default options; \<open>None\<close> otherwise.
\<close>

definition int_literal :: "string \<Rightarrow> int option" where
  "int_literal s =
     (let body = (case s of c # cs \<Rightarrow> if c = CHR ''-'' \<or> c = CHR ''+'' then cs else s | [] \<Rightarrow> s);
          neg = (case s of c # cs \<Rightarrow> c = CHR ''-'' | [] \<Rightarrow> False)
      in if body \<noteq> [] \<and> list_all is_digit body
         then Some (if neg then - int (digits_value body) else int (digits_value body))
         else None)"

text \<open>\<open>isInt({ min, max })\<close> of validator.js.\<close>

definition isInt :: "int \<Rightarrow> int \<Rightarrow> string \<Rightarrow> bool" where
  "isInt lo hi s = (case int_literal s of None \<Rightarrow> False | Some n \<Rightarrow> lo \<le> n \<and> n \<le> hi)"

text \<open>\<open>isNumeric({ no_symbols: true })\<close> of validator.js: one or more digits.\<close>

definition isNumeric_no_symbols :: "string \<Rightarrow> bool" where
  "isNumeric_no_symbols s = (s \<noteq> [] \<and> list_all is_digit s)"

text \<open>
  \<open>parseInt\<close> and the numeric coercion of \<open>page - 1\<close>. The handler applies them only to
  strings that passed \<open>isInt\<close> and \<open>isNumeric\<close>, where both are the denoted integer; the
  value \<open>0\<close> for the other strings stands for JavaScript's \<open>NaN\<close> and is never reached.
\<close>

definition parseInt :: "string \<Rightarrow> int" where
  "parseInt s = (case int_literal s of Some n \<Rightarrow> n | None \<Rightarrow> 0)"

definition toNumber :: "string \<Rightarrow> int" where
  "toNumber s = int (digits_value s)"

section \<open>Reward history: \<open>GET /:candidate/:owner/getRewards\<close>\<close>

subsection \<open>Data\<close>

text \<open>One document of \<open>db.Status\<close>, as the handler reads it.\<close>

record status_record =
  epoch :: int
  masternodes :: "address list"
  penalties :: "address list"
  proposes :: "address list"
  blockCreatedAt :: timestamp

text \<open>
  The body the reward service answers \<open>rewardsByEpoch\<close> with. The handler returns this
  object itself, with two fields added, so the entry's \<open>epoch\<close>, \<open>signNumber\<close>,
  \<open>reward\<close> and \<open>rewardTime\<close> are the service's.
\<close>

record payload =
  p_epoch :: int
  p_signNumber :: int
  p_reward :: rat
  p_rewardTime :: timestamp

datatype status_tag = MASTERNODE | SLASHED | PROPOSED

text \<open>
  An element of \<open>items\<close>. The two amount fields are optional because the object
  literals of the handler do not all write both: a field that a literal leaves out is
  \<open>None\<close> (\<open>undefined\<close> in the response).
\<close>

record item =
  item_epoch :: int
  masternodeReward :: "rat option"
  reward :: "rat option"
  rewardTime :: timestamp
  signNumber :: int
  item_status :: status_tag

record rewards_response =
  items :: "item list"
  total :: nat

subsection \<open>Collaborators\<close>

text \<open>
  bignumber.js with its default configuration: \<open>multipliedBy\<close> is exact, \<open>dividedBy\<close>
  rounds the quotient to \<open>DECIMAL_PLACES = 20\<close> decimal places, half away from zero
  (\<open>ROUND_HALF_UP\<close>). The only call of \<open>dividedBy\<close> is guarded by a nonzero divisor.
\<close>

definition DECIMAL_PLACES :: nat where
  "DECIMAL_PLACES = 20"

definition round_half_up :: "nat \<Rightarrow> rat \<Rightarrow> rat" where
  "round_half_up dp q = sgn q * of_int \<lfloor>\<bar>q\<bar> * 10 ^ dp + 1 / 2\<rfloor> / 10 ^ dp"

definition multipliedBy :: "rat \<Rightarrow> rat \<Rightarrow> rat" where
  "multipliedBy x y = x * y"

definition dividedBy :: "rat \<Rightarrow> rat \<Rightarrow> rat" where
  "dividedBy x y = round_half_up DECIMAL_PLACES (x / y)"

text \<open>
  The record store: \<open>countDocuments\<close> and \<open>find(...).sort({ epoch: -1 }).limit(l).skip(s)\<close>
  over the list of stored documents. MongoDB applies the skip before the limit whatever
  the order of the calls, reads a limit of 0 as no limit, and rejects a negative skip.
\<close>

definition elemMatch_in :: "address \<Rightarrow> address list \<Rightarrow> bool" where
  "elemMatch_in c xs = (c \<in> set xs)"

definition countDocuments :: "(status_record \<Rightarrow> bool) \<Rightarrow> status_record list \<Rightarrow> nat" where
  "countDocuments P db = length (filter P db)"

definition apply_limit :: "int \<Rightarrow> 'a list \<Rightarrow> 'a list" where
  "apply_limit l xs = (if l = 0 then xs else take (nat \<bar>l\<bar>) xs)"

definition find_sorted ::
  "(status_record \<Rightarrow> bool) \<Rightarrow> int \<Rightarrow> int \<Rightarrow> status_record list \<Rightarrow> error + status_record list" where
  "find_sorted P l s db =
     (if s < 0 then Inl UpstreamFailure
      else Inr (apply_limit l (drop (nat s) (sort_key (\<lambda>r. - epoch r) (filter P db)))))"

text \<open>
  \<open>Array.prototype.sort\<close> with a comparator: a stable sort (ECMAScript 2019), written as
  insertion from the right. \<open>x\<close> stood before every element of the sorted tail, so it
  goes in front of the first element it does not have to follow.
\<close>

fun insort_cmp :: "('a \<Rightarrow> 'a \<Rightarrow> int) \<Rightarrow> 'a \<Rightarrow> 'a list \<Rightarrow> 'a list" where
  "insort_cmp cmp x [] = [x]"
| "insort_cmp cmp x (y # ys) =
     (if cmp x y \<le> 0 then x # y # ys else y # insort_cmp cmp x ys)"

definition js_sort :: "('a \<Rightarrow> 'a \<Rightarrow> int) \<Rightarrow> 'a list \<Rightarrow> 'a list" where
  "js_sort cmp xs = foldr (insort_cmp cmp) xs []"

text \<open>\<open>Array.prototype.slice(0, n)\<close>.\<close>

definition slice0 :: "int \<Rightarrow> 'a list \<Rightarrow> 'a list" where
  "slice0 n xs =
     (if n < 0 then take (length xs - nat (- n)) xs else take (nat n) xs)"

text \<open>\<open>Promise.all\<close> over \<open>map\<close>: every element resolves, or the whole call rejects.\<close>

fun promise_all :: "('a \<Rightarrow> error + 'b) \<Rightarrow> 'a list \<Rightarrow> error + 'b list" where
  "promise_all f [] = Inr []"
| "promise_all f (x # xs) =
     (case f x of
        Inl e \<Rightarrow> Inl e
      | Inr y \<Rightarrow> (case promise_all f xs of Inl e \<Rightarrow> Inl e | Inr ys \<Rightarrow> Inr (y # ys)))"

subsection \<open>The handler\<close>

text \<open>
  The validation chain of the route. \<open>optional()\<close> skips a parameter that is absent.
\<close>

definition getRewards_validate :: "string option \<Rightarrow> string option \<Rightarrow> string list" where
  "getRewards_validate q_limit q_page =
     (case q_limit of
        None \<Rightarrow> []
      | Some l \<Rightarrow> if isInt 0 100 l then [] else [''limit should greater than 0 and less than 200''])
     @ (case q_page of
          None \<Rightarrow> []
        | Some p \<Rightarrow> if isNumeric_no_symbols p then [] else [''page must be number''])"

text \<open>
  \<open>(req.query.limit) ? parseInt(req.query.limit) : 100\<close>: a query value is a string, and
  a string is falsy only when it is empty.
\<close>

definition limit_of :: "string option \<Rightarrow> int" where
  "limit_of q_limit =
     (case q_limit of None \<Rightarrow> 100 | Some l \<Rightarrow> if l \<noteq> [] then parseInt l else 100)"

text \<open>
  \<open>(req.query.page) ? limit * (req.query.page - 1) : 0\<close>, in exact integers: the
  JavaScript product is the same for every page below \<open>2^53\<close>.
\<close>

definition skip_of :: "int \<Rightarrow> string option \<Rightarrow> int" where
  "skip_of limit q_page =
     (case q_page of None \<Rightarrow> 0 | Some p \<Rightarrow> if p \<noteq> [] then limit * (toNumber p - 1) else 0)"

text \<open>
  The body of \<open>masternodes.map\<close>. \<open>rewardsByEpoch\<close> and \<open>totalSignNumber\<close> are the two
  endpoints of the reward service: a rejected request is \<open>Inl\<close>, an answer without a body
  (respectively without a \<open>signNumber\<close>) is \<open>Inr None\<close>. \<open>pool\<close> is
  \<open>config.get('blockchain.reward')\<close>.
\<close>

definition resolve_masternode ::
  "(address \<Rightarrow> address \<Rightarrow> string \<Rightarrow> int \<Rightarrow> error + payload option) \<Rightarrow>
   (int \<Rightarrow> error + int option) \<Rightarrow> rat \<Rightarrow> address \<Rightarrow> address \<Rightarrow> status_record \<Rightarrow> error + item" where
  "resolve_masternode rewardsByEpoch totalSignNumber pool candidate owner m =
     (case rewardsByEpoch candidate owner ''Voter'' (epoch m) of
        Inl e \<Rightarrow> Inl e
      | Inr (Some result) \<Rightarrow>
          (case totalSignNumber (epoch m) of
             Inl e \<Rightarrow> Inl e
           | Inr totalSigners \<Rightarrow>
               Inr \<lparr> item_epoch = p_epoch result,
                     masternodeReward =
                       (case totalSigners of
                          Some t \<Rightarrow>
                            if t \<noteq> 0
                            then Some (dividedBy (multipliedBy pool (of_int (p_signNumber result)))
                                        (of_int t))
                            else Some (p_reward result)
                        | None \<Rightarrow> Some (p_reward result)),
                     reward = Some (p_reward result),
                     rewardTime = p_rewardTime result,
                     signNumber = p_signNumber result,
                     item_status = MASTERNODE \<rparr>)
      | Inr None \<Rightarrow>
          Inr \<lparr> item_epoch = epoch m,
                masternodeReward = Some 0,
                reward = None,
                rewardTime = blockCreatedAt m,
                signNumber = 0,
                item_status = MASTERNODE \<rparr>)"

definition penalty_item :: "status_record \<Rightarrow> item" where
  "penalty_item p =
     \<lparr> item_epoch = epoch p,
       masternodeReward = Some 0,
       reward = None,
       rewardTime = blockCreatedAt p,
       signNumber = 0,
       item_status = SLASHED \<rparr>"

definition propose_item :: "status_record \<Rightarrow> item" where
  "propose_item p =
     \<lparr> item_epoch = epoch p,
       masternodeReward = None,
       reward = Some 0,
       rewardTime = blockCreatedAt p,
       signNumber = 0,
       item_status = PROPOSED \<rparr>"

definition merge_items :: "item list \<Rightarrow> item list \<Rightarrow> item list \<Rightarrow> item list" where
  "merge_items proposeArr penArr MNArr =
     (let items0 = [];
          items1 = (if length proposeArr > 0 then items0 @ proposeArr else items0);
          items2 = (if length penArr > 0 then items1 @ penArr else items1);
          items3 = (if length MNArr > 0 then items2 @ MNArr else items2)
      in js_sort (\<lambda>a b. item_epoch b - item_epoch a) items3)"

text \<open>
  The handler. The three \<open>find\<close> queries resolve to arrays, which are truthy even when
  empty, so the guards \<open>if (masternodes)\<close>, \<open>if (penalties)\<close> and \<open>if (proposes)\<close>
  always take their branch. A rejected query or service call leaves the \<open>try\<close> block
  through \<open>next(e)\<close>.
\<close>

definition getRewards ::
  "(address \<Rightarrow> address \<Rightarrow> string \<Rightarrow> int \<Rightarrow> error + payload option) \<Rightarrow>
   (int \<Rightarrow> error + int option) \<Rightarrow> rat \<Rightarrow> status_record list \<Rightarrow>
   address \<Rightarrow> address \<Rightarrow> string option \<Rightarrow> string option \<Rightarrow> error + rewards_response" where
  "getRewards rewardsByEpoch totalSignNumber pool db candidate owner q_limit q_page =
     (let errors = getRewards_validate q_limit q_page in
      if errors \<noteq> [] then Inl (ValidationErrors errors)
      else
        let limit = limit_of q_limit;
            skip = skip_of limit q_page;
            masternodeTimes = countDocuments (\<lambda>r. elemMatch_in candidate (masternodes r)) db;
            penaltyTimes = countDocuments (\<lambda>r. elemMatch_in candidate (penalties r)) db;
            proposeTimes = countDocuments (\<lambda>r. elemMatch_in candidate (proposes r)) db
        in
        case find_sorted (\<lambda>r. elemMatch_in candidate (masternodes r)) limit skip db of
          Inl e \<Rightarrow> Inl e
        | Inr masternodes_found \<Rightarrow>
           (case promise_all (resolve_masternode rewardsByEpoch totalSignNumber pool candidate owner)
                   masternodes_found of
              Inl e \<Rightarrow> Inl e
            | Inr MNArr \<Rightarrow>
               (case find_sorted (\<lambda>r. elemMatch_in candidate (penalties r)) limit skip db of
                  Inl e \<Rightarrow> Inl e
                | Inr penalties_found \<Rightarrow>
                   (case find_sorted (\<lambda>r. elemMatch_in candidate (proposes r)) limit skip db of
                      Inl e \<Rightarrow> Inl e
                    | Inr proposes_found \<Rightarrow>
                        Inr \<lparr> items = slice0 limit
                                        (merge_items (map propose_item proposes_found)
                                           (map penalty_item penalties_found) MNArr),
                              total = masternodeTimes + penaltyTimes + proposeTimes \<rparr>))))"

section \<open>Ownership challenge\<close>

subsection \<open>Data\<close>

text \<open>The fields of a \<open>db.Candidate\<close> document that the challenge routes read.\<close>

record candidate_doc =
  smartContractAddress :: address
  candidate :: address
  owner :: address

text \<open>
  One document of \<open>db.Signature\<close>. \<open>status = True\<close> is a challenge that has been issued
  and not used; \<open>status = False\<close> is one that has been consumed. \<open>message\<close> and
  \<open>signature\<close> are absent until a consume writes them.
\<close>

record signature_doc =
  signedAddress :: address
  signedId :: string
  message :: "string option"
  signature :: "string option"
  status :: bool

record config =
  validatorAddress :: address
  baseUrl :: string

record issue_response =
  resp_message :: string
  resp_url :: string
  resp_id :: string

datatype read_response = SignatureOf "string option" | NoData

subsection \<open>Collaborators\<close>

text \<open>
  \<open>findOne\<close> takes the first document that matches. \<open>findOneAndUpdate\<close> with
  \<open>upsert: true\<close> sets the given fields on the first document with the address, or
  inserts a document that has the address and the given fields and nothing else.
  \<open>updateOne\<close> is the same without the insertion.
\<close>

definition findOne_candidate :: "address \<Rightarrow> address \<Rightarrow> candidate_doc list \<Rightarrow> candidate_doc option" where
  "findOne_candidate contract c cs =
     find (\<lambda>d. smartContractAddress d = contract \<and> candidate d = c) cs"

definition findOne_signedId :: "string \<Rightarrow> signature_doc list \<Rightarrow> signature_doc option" where
  "findOne_signedId i db = find (\<lambda>d. signedId d = i) db"

fun findOneAndUpdate ::
  "address \<Rightarrow> (signature_doc \<Rightarrow> signature_doc) \<Rightarrow> signature_doc list \<Rightarrow> signature_doc list" where
  "findOneAndUpdate a data [] =
     [data \<lparr> signedAddress = a, signedId = [], message = None, signature = None, status = False \<rparr>]"
| "findOneAndUpdate a data (d # ds) =
     (if signedAddress d = a then data d # ds else d # findOneAndUpdate a data ds)"

fun updateOne ::
  "address \<Rightarrow> (signature_doc \<Rightarrow> signature_doc) \<Rightarrow> signature_doc list \<Rightarrow> signature_doc list" where
  "updateOne a data [] = []"
| "updateOne a data (d # ds) =
     (if signedAddress d = a then data d # ds else d # updateOne a data ds)"

text \<open>
  \<open>urljoin\<close> of a base without a trailing slash and a relative path (a trailing slash of
  the base would be merged with the separator).
\<close>

definition urljoin :: "string \<Rightarrow> string \<Rightarrow> string" where
  "urljoin a b = a @ ''/'' @ b"

subsection \<open>\<open>POST /:candidate/generateMessage\<close> (issue)\<close>

text \<open>
  The validation chain of the route. \<open>withMessage\<close> names the message of \<open>exists()\<close>, the
  validator before it; a failing \<open>isLength\<close> reports the default \<open>Invalid value\<close>. The
  candidate is a path parameter and the account a field of the body, which may be
  missing.
\<close>

definition generateMessage_validate :: "string \<Rightarrow> string option \<Rightarrow> string list" where
  "generateMessage_validate candidate_param account =
     (if length candidate_param \<ge> 1 then [] else [''Invalid value''])
     @ (case account of
          Some a \<Rightarrow> if length a \<ge> 1 then [] else [''Invalid value'']
        | None \<Rightarrow> [''Invalid value'', ''account is required''])"

text \<open>
  The body of the \<open>try\<close> block. \<open>now\<close> is the text \<open>new Date().toLocaleString()\<close> gives
  with its quotes removed and \<open>uuid\<close> the value \<open>uuidv4()\<close> returns: both come from the
  environment of the call.
\<close>

definition issue ::
  "config \<Rightarrow> candidate_doc list \<Rightarrow> string \<Rightarrow> string \<Rightarrow> string \<Rightarrow> string \<Rightarrow> signature_doc list \<Rightarrow>
   (error + issue_response) \<times> signature_doc list" where
  "issue cfg candidates now uuid candidate_param account_body db =
     (let account = toLowerCase account_body in
      case findOne_candidate (validatorAddress cfg) candidate_param candidates of
        None \<Rightarrow> (Inl (NotAcceptable ''This address is not a candidate''), db)
      | Some c \<Rightarrow>
          (Inr \<lparr> resp_message = ''[Tomomaster '' @ now @ '']'' @ '' I am the owner of candidate ''
                                  @ ''['' @ candidate_param @ '']'',
                  resp_url = urljoin (baseUrl cfg) (''api/candidates/verifyScannedQR?id='' @ uuid),
                  resp_id = uuid \<rparr>,
           findOneAndUpdate account (\<lambda>d. d\<lparr> signedId := uuid, status := True \<rparr>) db))"

definition generateMessage ::
  "config \<Rightarrow> candidate_doc list \<Rightarrow> string \<Rightarrow> string \<Rightarrow> string \<Rightarrow> string option \<Rightarrow> signature_doc list \<Rightarrow>
   (error + issue_response) \<times> signature_doc list" where
  "generateMessage cfg candidates now uuid candidate_param account db =
     (let errors = generateMessage_validate candidate_param account in
      if errors \<noteq> [] then (Inl (ValidationErrors errors), db)
      else issue cfg candidates now uuid candidate_param
             (case account of Some a \<Rightarrow> a | None \<Rightarrow> []) db)"

subsection \<open>\<open>POST /verifyScannedQR\<close> (consume)\<close>

text \<open>
  The validation chain of the route, which checks \<open>message\<close> twice. The id is a query
  parameter, which may be missing; the three body fields are given and may be empty, and
  an empty one fails \<open>isLength\<close> with the default \<open>Invalid value\<close>.
\<close>

definition verifyScannedQR_validate ::
  "string option \<Rightarrow> string \<Rightarrow> string \<Rightarrow> string \<Rightarrow> string list" where
  "verifyScannedQR_validate q_id msg sig signer =
     (case q_id of None \<Rightarrow> [''id is required''] | Some i \<Rightarrow> [])
     @ (if length msg \<ge> 1 then [] else [''Invalid value''])
     @ (if length sig \<ge> 1 then [] else [''Invalid value''])
     @ (if length signer \<ge> 1 then [] else [''Invalid value''])
     @ (if length msg \<ge> 1 then [] else [''Invalid value''])"

text \<open>
  The three comparisons of the handler, on the lower-cased claimed signer, the
  lower-cased recovered address and the document found for the id.
\<close>

definition verification_failed :: "string \<Rightarrow> string \<Rightarrow> string \<Rightarrow> signature_doc \<Rightarrow> bool" where
  "verification_failed signer recovered i checkId =
     (signer \<noteq> recovered \<or> signedAddress checkId \<noteq> recovered \<or> i \<noteq> signedId checkId)"

text \<open>
  The body of the \<open>try\<close> block. \<open>recover\<close> is \<open>web3.eth.accounts.recover\<close>: \<open>None\<close> when
  it throws on a signature it cannot decode.
\<close>

definition consume ::
  "(string \<Rightarrow> string \<Rightarrow> address option) \<Rightarrow> string \<Rightarrow> string \<Rightarrow> string \<Rightarrow> string \<Rightarrow>
   signature_doc list \<Rightarrow> (error + string) \<times> signature_doc list" where
  "consume recover i msg sig signer_body db =
     (let signer = toLowerCase signer_body in
      case findOne_signedId i db of
        None \<Rightarrow> (Inl (Error ''id is not match''), db)
      | Some checkId \<Rightarrow>
          if \<not> status checkId then (Inl (Error ''Cannot use a QR code twice''), db)
          else
            (case recover msg sig of
               None \<Rightarrow> (Inl RecoverFailure, db)
             | Some r \<Rightarrow>
                 let recovered = toLowerCase r in
                 if verification_failed signer recovered i checkId
                 then (Inl (Error ''The Signature Message Verification Failed''), db)
                 else (Inr ''Done'',
                       findOneAndUpdate recovered
                         (\<lambda>d. d\<lparr> signedId := i, message := Some msg, signature := Some sig,
                                 status := False \<rparr>) db)))"

definition verifyScannedQR ::
  "(string \<Rightarrow> string \<Rightarrow> address option) \<Rightarrow> string option \<Rightarrow> string \<Rightarrow> string \<Rightarrow> string \<Rightarrow>
   signature_doc list \<Rightarrow> (error + string) \<times> signature_doc list" where
  "verifyScannedQR recover q_id msg sig signer db =
     (let errors = verifyScannedQR_validate q_id msg sig signer in
      if errors \<noteq> [] then (Inl (ValidationErrors errors), db)
      else consume recover (case q_id of Some i \<Rightarrow> i | None \<Rightarrow> []) msg sig signer db)"

subsection \<open>\<open>GET /:candidate/getSignature\<close> (read)\<close>

definition read_challenge :: "string \<Rightarrow> signature_doc list \<Rightarrow> read_response \<times> signature_doc list" where
  "read_challenge messId db =
     (case findOne_signedId messId db of
        Some s \<Rightarrow> if \<not> status s then (SignatureOf (signature s), db) else (NoData, db)
      | None \<Rightarrow> (NoData, db))"

definition getSignature ::
  "string option \<Rightarrow> signature_doc list \<Rightarrow> (error + read_response) \<times> signature_doc list" where
  "getSignature q_id db =
     (case q_id of
        None \<Rightarrow> (Inl (ValidationErrors [''id is required'']), db)
      | Some i \<Rightarrow> (let (r, db') = read_challenge i db in (Inr r, db')))"

text \<open>Reading \<open>n\<close> times in a row: the answers, oldest first, and the store left behind.\<close>

fun read_repeatedly :: "nat \<Rightarrow> string \<Rightarrow> signature_doc list \<Rightarrow> read_response list \<times> signature_doc list" where
  "read_repeatedly 0 messId db = ([], db)"
| "read_repeatedly (Suc n) messId db =
     (let (r, db') = read_challenge messId db;
          (rs, db'') = read_repeatedly n messId db'
      in (r # rs, db''))"

subsection \<open>Sequential executions\<close>

text \<open>
  The only other write to \<open>db.Signature\<close>: \<open>PUT /update\<close>, once it has authenticated a
  signer, empties the stored signature of that signer's document.
\<close>

definition clear_signature :: "address \<Rightarrow> signature_doc list \<Rightarrow> signature_doc list" where
  "clear_signature a db = updateOne (toLowerCase a) (\<lambda>d. d\<lparr> signature := Some [] \<rparr>) db"

text \<open>
  A request that touches \<open>db.Signature\<close>. A \<open>GenerateMessage\<close> carries the date text and
  the uuid that the environment produced for it.
\<close>

datatype request =
    GenerateMessage string string string "string option"
  | VerifyScannedQR "string option" string string string
  | GetSignature "string option"
  | ClearSignature address

fun step ::
  "config \<Rightarrow> candidate_doc list \<Rightarrow> (string \<Rightarrow> string \<Rightarrow> address option) \<Rightarrow> request \<Rightarrow>
   signature_doc list \<Rightarrow> signature_doc list" where
  "step cfg cs recover (GenerateMessage now uuid c a) db = snd (generateMessage cfg cs now uuid c a db)"
| "step cfg cs recover (VerifyScannedQR q m sg s) db = snd (verifyScannedQR recover q m sg s db)"
| "step cfg cs recover (GetSignature q) db = snd (getSignature q db)"
| "step cfg cs recover (ClearSignature a) db = clear_signature a db"

text \<open>Whether the request is a consume of token \<open>t\<close> that answers \<open>Done\<close> on this store.\<close>

fun consumes ::
  "(string \<Rightarrow> string \<Rightarrow> address option) \<Rightarrow> string \<Rightarrow> request \<Rightarrow> signature_doc list \<Rightarrow> bool" where
  "consumes recover t (VerifyScannedQR q m sg s) db =
     (q = Some t \<and> fst (verifyScannedQR recover q m sg s db) = Inr ''Done'')"
| "consumes recover t r db = False"

text \<open>How many requests of the run consume token \<open>t\<close> successfully.\<close>

fun consumed_count ::
  "config \<Rightarrow> candidate_doc list \<Rightarrow> (string \<Rightarrow> string \<Rightarrow> address option) \<Rightarrow> string \<Rightarrow>
   request list \<Rightarrow> signature_doc list \<Rightarrow> nat" where
  "consumed_count cfg cs recover t [] db = 0"
| "consumed_count cfg cs recover t (r # rs) db =
     (if consumes recover t r db then 1 else 0)
     + consumed_count cfg cs recover t rs (step cfg cs recover r db)"

text \<open>The uuids that the run generates, in order.\<close>

fun generated_ids :: "request list \<Rightarrow> string list" where
  "generated_ids [] = []"
| "generated_ids (GenerateMessage now uuid c a # rs) = uuid # generated_ids rs"
| "generated_ids (r # rs) = generated_ids rs"

text \<open>
  \<open>uuidv4\<close> does not repeat: the uuids of a run are pairwise different and none is the
  id of a document that the store holds when the run starts.
\<close>

definition fresh_ids :: "request list \<Rightarrow> signature_doc list \<Rightarrow> bool" where
  "fresh_ids rs db =
     (distinct (generated_ids rs) \<and> list_all (\<lambda>u. u \<notin> set (map signedId db)) (generated_ids rs))"

text \<open>
  A store that the routes can have built: one document per address and per id.
\<close>

definition store_ok :: "signature_doc list \<Rightarrow> bool" where
  "store_ok db = (distinct (map signedAddress db) \<and> distinct (map signedId db))"

section \<open>Properties and examples\<close>

subsection \<open>Order of the reward history\<close>



subsection \<open>The example of the specification\<close>

text \<open>
  A candidate \<open>0xaa\<close> that proposed and was penalised in epoch 5 and was a masternode in
  epoch 4, where the service reports 10 signatures of 100 for a pool of 1000.
\<close>

definition example_db :: "status_record list" where
  "example_db =
     [\<lparr> epoch = 4, masternodes = [''0xaa''], penalties = [], proposes = [], blockCreatedAt = 400 \<rparr>,
      \<lparr> epoch = 5, masternodes = [], penalties = [''0xaa''], proposes = [''0xaa''], blockCreatedAt = 500 \<rparr>]"

definition example_rewardsByEpoch :: "address \<Rightarrow> address \<Rightarrow> string \<Rightarrow> int \<Rightarrow> error + payload option" where
  "example_rewardsByEpoch a ow reason e =
     Inr (Some \<lparr> p_epoch = e, p_signNumber = 10, p_reward = 7, p_rewardTime = 401 \<rparr>)"

definition example_totalSignNumber :: "int \<Rightarrow> error + int option" where
  "example_totalSignNumber e = Inr (Some 100)"

definition example_response :: rewards_response where
  "example_response =
     \<lparr> items =
         [\<lparr> item_epoch = 5, masternodeReward = None, reward = Some 0, rewardTime = 500,
             signNumber = 0, item_status = PROPOSED \<rparr>,
          \<lparr> item_epoch = 5, masternodeReward = Some 0, reward = None, rewardTime = 500,
             signNumber = 0, item_status = SLASHED \<rparr>,
          \<lparr> item_epoch = 4, masternodeReward = Some 100, reward = Some 7, rewardTime = 401,
             signNumber = 10, item_status = MASTERNODE \<rparr>],
       total = 3 \<rparr>"

definition example_masternode :: status_record where
  "example_masternode =
     \<lparr> epoch = 4, masternodes = [''0xaa''], penalties = [], proposes = [], blockCreatedAt = 400 \<rparr>"

definition example_payload :: payload where
  "example_payload = \<lparr> p_epoch = 4, p_signNumber = 1, p_reward = 7, p_rewardTime = 401 \<rparr>"

subsection \<open>Challenges: invariants and runs\<close>

text \<open>No document with id \<open>t\<close> is still open.\<close>

definition used_up :: "string \<Rightarrow> signature_doc list \<Rightarrow> bool" where
  "used_up t db = list_all (\<lambda>d. signedId d \<noteq> t \<or> \<not> status d) db"

text \<open>The store after a run of requests.\<close>

fun run ::
  "config \<Rightarrow> candidate_doc list \<Rightarrow> (string \<Rightarrow> string \<Rightarrow> address option) \<Rightarrow> request list \<Rightarrow>
   signature_doc list \<Rightarrow> signature_doc list" where
  "run cfg cs recover [] db = db"
| "run cfg cs recover (r # rs) db = run cfg cs recover rs (step cfg cs recover r db)"

text \<open>
  The accounts for which a run issues a challenge: a \<open>generateMessage\<close> that passes its
  validation and finds its candidate writes the document of its lower-cased account,
  and on the empty store that document is all there is.
\<close>

fun issued_accounts :: "config \<Rightarrow> candidate_doc list \<Rightarrow> request list \<Rightarrow> address list" where
  "issued_accounts cfg cs [] = []"
| "issued_accounts cfg cs (GenerateMessage now uuid c a # rs) =
     map signedAddress (snd (generateMessage cfg cs now uuid c a [])) @ issued_accounts cfg cs rs"
| "issued_accounts cfg cs (r # rs) = issued_accounts cfg cs rs"

text \<open>The accounts whose stored signature the run empties.\<close>

fun cleared_accounts :: "request list \<Rightarrow> address list" where
  "cleared_accounts [] = []"
| "cleared_accounts (ClearSignature a # rs) = toLowerCase a # cleared_accounts rs"
| "cleared_accounts (r # rs) = cleared_accounts rs"

subsection \<open>A challenge for the owner of a candidate\<close>

text \<open>
  Candidate \<open>0xab\<close> with owner \<open>0xcd\<close>. \<open>example_recover\<close> recovers the owner (in the
  mixed case of a checksummed address) from one signature, a stranger from another, and
  fails on anything else.
\<close>

definition example_config :: config where
  "example_config = \<lparr> validatorAddress = ''0x88'', baseUrl = ''http://localhost:3001'' \<rparr>"

definition example_candidates :: "candidate_doc list" where
  "example_candidates = [\<lparr> smartContractAddress = ''0x88'', candidate = ''0xab'', owner = ''0xcd'' \<rparr>]"

definition example_recover :: "string \<Rightarrow> string \<Rightarrow> address option" where
  "example_recover msg sig =
     (if sig = ''signed-by-cd'' then Some ''0xCD''
      else if sig = ''signed-by-ee'' then Some ''0xEE''
      else None)"

definition example_issued :: "signature_doc list" where
  "example_issued =
     [\<lparr> signedAddress = ''0xcd'', signedId = ''id-1'', message = None, signature = None,
        status = True \<rparr>]"

definition example_consumed :: "signature_doc list" where
  "example_consumed =
     [\<lparr> signedAddress = ''0xcd'', signedId = ''id-1'', message = Some ''msg'',
        signature = Some ''signed-by-cd'', status = False \<rparr>]"

definition example_requests :: "request list" where
  "example_requests =
     [GenerateMessage ''now'' ''id-1'' ''0xab'' (Some ''0xCD''),
      VerifyScannedQR (Some ''id-1'') ''msg'' ''signed-by-cd'' ''0xCd'',
      GetSignature (Some ''id-1''),
      VerifyScannedQR (Some ''id-1'') ''msg'' ''signed-by-cd'' ''0xCd'',
      ClearSignature ''0xCD'',
      GenerateMessage ''later'' ''id-2'' ''0xab'' (Some ''0xcd''),
      VerifyScannedQR (Some ''id-1'') ''msg'' ''signed-by-cd'' ''0xCd'']"

text \<open>
  Two continuations after the owner's challenge: one in which a stranger gets and uses
  a challenge of their own, and one in which the owner asks for a new challenge.
\<close>

definition example_other_account :: "request list" where
  "example_other_account =
     [GetSignature (Some ''id-1''),
      GenerateMessage ''later'' ''id-2'' ''0xab'' (Some ''0xEE''),
      VerifyScannedQR (Some ''id-2'') ''other'' ''signed-by-ee'' ''0xee'',
      ClearSignature ''0xEE'']"

definition example_same_account :: "request list" where
  "example_same_account = [GenerateMessage ''later'' ''id-2'' ''0xab'' (Some ''0xcd'')]"

section \<open>Reward history: proofs\<close>

subsection \<open>The sort\<close>



lemma length_insort_cmp: "length (insort_cmp cmp x ys) = Suc (length ys)"
  by (induction ys) auto

lemma length_js_sort: "length (js_sort cmp xs) = length xs"
  by (induction xs) (auto simp: js_sort_def length_insort_cmp)




lemma js_sort_stable:
  "filter (\<lambda>x. item_epoch x = e) (js_sort (\<lambda>a b. item_epoch b - item_epoch a) xs)
   = filter (\<lambda>x. item_epoch x = e) xs"
proof (induction xs)
  case Nil
  then show ?case by (simp add: js_sort_def)
next
  case (Cons x xs)
  have ins: "filter (\<lambda>z. item_epoch z = e) (insort_cmp (\<lambda>a b. item_epoch b - item_epoch a) x ys)
       = (if item_epoch x = e then x # filter (\<lambda>z. item_epoch z = e) ys
          else filter (\<lambda>z. item_epoch z = e) ys)" for ys
    by (induction ys) auto
  show ?case using Cons by (simp add: js_sort_def ins)
qed


subsection \<open>The handler\<close>

lemma int_literal_nonempty: "int_literal s = Some n \<Longrightarrow> s \<noteq> []"
  by (auto simp: int_literal_def)

lemma validated_limit_range:
  assumes "getRewards_validate q_limit q_page = []"
  shows "0 \<le> limit_of q_limit \<and> limit_of q_limit \<le> 100"
proof (cases q_limit)
  case None
  then show ?thesis by (simp add: limit_of_def)
next
  case (Some l)
  with assms have ok: "isInt 0 100 l"
    by (auto simp: getRewards_validate_def split: if_splits)
  then obtain n where n: "int_literal l = Some n" "0 \<le> n" "n \<le> 100"
    by (auto simp: isInt_def split: option.splits)
  then have "l \<noteq> []" by (auto dest: int_literal_nonempty)
  then show ?thesis using Some n by (simp add: limit_of_def parseInt_def)
qed

lemma length_slice0: "0 \<le> n \<Longrightarrow> int (length (slice0 n xs)) \<le> n"
  by (simp add: slice0_def)




lemma merge_items_eq:
  "merge_items proposeArr penArr MNArr
   = js_sort (\<lambda>a b. item_epoch b - item_epoch a) (proposeArr @ penArr @ MNArr)"
  by (simp add: merge_items_def Let_def)

text \<open>Stability: the items of one epoch leave the sort in the order of the concatenation.\<close>

lemma merge_items_stable:
  "filter (\<lambda>x. item_epoch x = e) (merge_items proposeArr penArr MNArr)
   = filter (\<lambda>x. item_epoch x = e) (proposeArr @ penArr @ MNArr)"
  unfolding merge_items_eq by (rule js_sort_stable)


lemma getRewards_Inr:
  assumes "getRewards rb ts pool db c ow q_limit q_page = Inr resp"
  obtains ms MNArr qs ps where
    "getRewards_validate q_limit q_page = []"
    "promise_all (resolve_masternode rb ts pool c ow) ms = Inr MNArr"
    "items resp = slice0 (limit_of q_limit)
                    (merge_items (map propose_item ps) (map penalty_item qs) MNArr)"
    "total resp = countDocuments (\<lambda>r. elemMatch_in c (masternodes r)) db
                + countDocuments (\<lambda>r. elemMatch_in c (penalties r)) db
                + countDocuments (\<lambda>r. elemMatch_in c (proposes r)) db"
  using assms
  by (auto simp: getRewards_def Let_def split: if_splits sum.splits)


subsection \<open>Rounding of \<open>dividedBy\<close>\<close>

lemma round_half_up_error: "\<bar>round_half_up dp q - q\<bar> \<le> 1 / (2 * 10 ^ dp)"
proof -
  define s :: rat where "s = 10 ^ dp"
  define a where "a = \<bar>q\<bar> * s"
  define f :: rat where "f = of_int \<lfloor>a + 1 / 2\<rfloor>"
  have s_pos: "0 < s" by (simp add: s_def)
  have "f \<le> a + 1 / 2" and "a + 1 / 2 < f + 1"
    unfolding f_def by linarith+
  then have near: "\<bar>f - a\<bar> \<le> 1 / 2" by linarith
  have q_eq: "q = sgn q * (a / s)"
    using s_pos by (simp add: a_def sgn_mult_abs)
  have "round_half_up dp q - q = sgn q * (f / s) - sgn q * (a / s)"
    using q_eq by (simp add: round_half_up_def f_def a_def s_def)
  also have "\<dots> = sgn q * ((f - a) / s)"
    by (simp add: algebra_simps diff_divide_distrib)
  finally have "\<bar>round_half_up dp q - q\<bar> = \<bar>sgn q\<bar> * (\<bar>f - a\<bar> / s)"
    using s_pos by (simp add: abs_mult)
  also have "\<dots> \<le> 1 * (\<bar>f - a\<bar> / s)"
    using s_pos by (intro mult_right_mono) (auto simp: abs_sgn_eq)
  also have "\<dots> \<le> (1 / 2) / s"
  proof -
    have "\<bar>f - a\<bar> / s \<le> (1 / 2) / s"
      by (rule divide_right_mono [OF near]) (use s_pos in simp)
    then show ?thesis by simp
  qed
  finally show ?thesis by (simp add: s_def)
qed

lemma dividedBy_error: "\<bar>dividedBy x y - x / y\<bar> \<le> 1 / (2 * 10 ^ 20)"
  unfolding dividedBy_def DECIMAL_PLACES_def by (rule round_half_up_error)

subsection \<open>What the validation of \<open>limit\<close> lets through\<close>

lemma limit_outside_0_100_rejected:
  assumes "int_literal l = Some n" and "n < 0 \<or> 100 < n"
  shows "\<exists>msgs. getRewards rb ts pool db c ow (Some l) q_page = Inl (ValidationErrors msgs)"
  using assms by (auto simp: getRewards_def getRewards_validate_def isInt_def Let_def)

lemma limit_not_integer_rejected:
  assumes "int_literal l = None"
  shows "\<exists>msgs. getRewards rb ts pool db c ow (Some l) q_page = Inl (ValidationErrors msgs)"
  using assms by (auto simp: getRewards_def getRewards_validate_def isInt_def Let_def)

lemma limit_default: "limit_of None = 100"
  by (simp add: limit_of_def)

lemma limit_of_literal: "int_literal l = Some n \<Longrightarrow> limit_of (Some l) = n"
  by (auto simp: limit_of_def parseInt_def dest: int_literal_nonempty)

lemma validated_limit_literal:
  assumes "getRewards_validate (Some l) q_page = []"
  shows "\<exists>n. int_literal l = Some n \<and> 0 \<le> n \<and> n \<le> 100"
  using assms by (auto simp: getRewards_validate_def isInt_def split: if_splits option.splits)

lemma example_run_two:
  "getRewards example_rewardsByEpoch example_totalSignNumber 1000 example_db ''0xaa'' ''0xbb''
     (Some ''2'') None = Inr \<lparr> items = take 2 (items example_response), total = 3 \<rparr>"
  by code_simp

lemma example_run_default:
  "getRewards example_rewardsByEpoch example_totalSignNumber 1000 example_db ''0xaa'' ''0xbb''
     None None = Inr example_response"
  by code_simp

subsection \<open>Claims about the reward history\<close>



text \<open>
  C2. Whenever the handler answers: a \<open>limit\<close> given in the query is an integer literal
  \<open>n\<close> between 0 and 100 and \<open>items\<close> has at most \<open>n\<close> elements; without a \<open>limit\<close> in
  the query \<open>items\<close> has at most 100; and \<open>total\<close> is the sum of the three counts, each
  taken on its own over the whole store. Nothing is assumed about the epochs of the
  three categories.
\<close>

theorem history_limit_total:
  assumes "getRewards rb ts pool db c ow q_limit q_page = Inr resp"
  shows "(\<forall>l. q_limit = Some l \<longrightarrow>
            (\<exists>n. int_literal l = Some n \<and> 0 \<le> n \<and> n \<le> 100 \<and> int (length (items resp)) \<le> n))
       \<and> (q_limit = None \<longrightarrow> length (items resp) \<le> 100)
       \<and> int (length (items resp)) \<le> limit_of q_limit
       \<and> total resp = length (filter (\<lambda>r. c \<in> set (masternodes r)) db)
                    + length (filter (\<lambda>r. c \<in> set (penalties r)) db)
                    + length (filter (\<lambda>r. c \<in> set (proposes r)) db)"
proof -
  from assms obtain ms MNArr qs ps where
    v: "getRewards_validate q_limit q_page = []" and
    it: "items resp = slice0 (limit_of q_limit)
                    (merge_items (map propose_item ps) (map penalty_item qs) MNArr)" and
    tot: "total resp = countDocuments (\<lambda>r. elemMatch_in c (masternodes r)) db
                + countDocuments (\<lambda>r. elemMatch_in c (penalties r)) db
                + countDocuments (\<lambda>r. elemMatch_in c (proposes r)) db"
    by (rule getRewards_Inr)
  have "0 \<le> limit_of q_limit" using validated_limit_range [OF v] by simp
  then have len: "int (length (items resp)) \<le> limit_of q_limit"
    unfolding it by (rule length_slice0)
  have some: "\<exists>n. int_literal l = Some n \<and> 0 \<le> n \<and> n \<le> 100 \<and> int (length (items resp)) \<le> n"
    if "q_limit = Some l" for l
  proof -
    from v that obtain n where n: "int_literal l = Some n" "0 \<le> n" "n \<le> 100"
      using validated_limit_literal by blast
    then have "limit_of q_limit = n" using that by (simp add: limit_of_literal)
    with len n show ?thesis by auto
  qed
  have none: "length (items resp) \<le> 100" if "q_limit = None"
    using len that by (simp add: limit_of_def)
  from some none len tot show ?thesis
    by (simp add: countDocuments_def elemMatch_in_def)
qed

theorem history_limit_total_witness:
  "getRewards example_rewardsByEpoch example_totalSignNumber 1000 example_db ''0xaa'' ''0xbb''
     (Some ''2'') None = Inr \<lparr> items = take 2 (items example_response), total = 3 \<rparr>
   \<and> int_literal ''2'' = Some 2
   \<and> length (take 2 (items example_response)) = 2
   \<and> length (items example_response) = 3
   \<and> (\<exists>n. int_literal ''2'' = Some n \<and> 0 \<le> n \<and> n \<le> 100
          \<and> int (length (take 2 (items example_response))) \<le> n)
   \<and> getRewards example_rewardsByEpoch example_totalSignNumber 1000 example_db ''0xaa'' ''0xbb''
        None None = Inr example_response
   \<and> length (items example_response) \<le> 100
   \<and> (3::nat) = length (filter (\<lambda>r. ''0xaa'' \<in> set (masternodes r)) example_db)
                    + length (filter (\<lambda>r. ''0xaa'' \<in> set (penalties r)) example_db)
                    + length (filter (\<lambda>r. ''0xaa'' \<in> set (proposes r)) example_db)"
proof -
  have a: "int_literal ''2'' = Some 2" "length (take 2 (items example_response)) = 2"
    "length (items example_response) = 3"
    by code_simp+
  note t2 = history_limit_total [OF example_run_two]
  note td = history_limit_total [OF example_run_default]
  from t2 have b: "\<exists>n. int_literal ''2'' = Some n \<and> 0 \<le> n \<and> n \<le> 100
          \<and> int (length (take 2 (items example_response))) \<le> n"
    by simp
  from t2 have c: "(3::nat) = length (filter (\<lambda>r. ''0xaa'' \<in> set (masternodes r)) example_db)
                    + length (filter (\<lambda>r. ''0xaa'' \<in> set (penalties r)) example_db)
                    + length (filter (\<lambda>r. ''0xaa'' \<in> set (proposes r)) example_db)"
    by simp
  from td have d: "length (items example_response) \<le> 100" by simp
  show ?thesis by (intro conjI) (fact example_run_two example_run_default a b c d)+
qed

text \<open>
  C3. For a masternode record: with a payload and a total signer count \<open>t \<noteq> 0\<close>, the
  stored \<open>masternodeReward\<close> is \<open>pool\<close> multiplied by the payload's \<open>signNumber\<close> and
  divided by \<open>t\<close> in bignumber.js arithmetic, which is within half a unit of the 20th
  decimal place of the exact quotient; with a payload and a total that is zero or
  absent, it is the payload's \<open>reward\<close>; without a payload, the item has reward 0,
  \<open>signNumber\<close> 0 and the stored record's \<open>blockCreatedAt\<close> as \<open>rewardTime\<close>.
\<close>

theorem masternode_reward_resolution:
  "(rb c ow ''Voter'' (epoch m) = Inr (Some result) \<and> ts (epoch m) = Inr (Some t) \<and> t \<noteq> 0 \<longrightarrow>
      (\<exists>it r. resolve_masternode rb ts pool c ow m = Inr it \<and> masternodeReward it = Some r
         \<and> r = dividedBy (multipliedBy pool (of_int (p_signNumber result))) (of_int t)
         \<and> \<bar>r - pool * of_int (p_signNumber result) / of_int t\<bar> \<le> 1 / (2 * 10 ^ 20)))
   \<and> (rb c ow ''Voter'' (epoch m) = Inr (Some result)
        \<and> (ts (epoch m) = Inr (Some 0) \<or> ts (epoch m) = Inr None) \<longrightarrow>
      (\<exists>it. resolve_masternode rb ts pool c ow m = Inr it
         \<and> masternodeReward it = Some (p_reward result)))
   \<and> (rb c ow ''Voter'' (epoch m) = Inr None \<longrightarrow>
      resolve_masternode rb ts pool c ow m =
        Inr \<lparr> item_epoch = epoch m, masternodeReward = Some 0, reward = None,
              rewardTime = blockCreatedAt m, signNumber = 0, item_status = MASTERNODE \<rparr>)"
proof (intro conjI impI)
  assume "rb c ow ''Voter'' (epoch m) = Inr (Some result) \<and> ts (epoch m) = Inr (Some t) \<and> t \<noteq> 0"
  then show "\<exists>it r. resolve_masternode rb ts pool c ow m = Inr it \<and> masternodeReward it = Some r
         \<and> r = dividedBy (multipliedBy pool (of_int (p_signNumber result))) (of_int t)
         \<and> \<bar>r - pool * of_int (p_signNumber result) / of_int t\<bar> \<le> 1 / (2 * 10 ^ 20)"
    using dividedBy_error [of "pool * of_int (p_signNumber result)" "of_int t"]
    by (simp add: resolve_masternode_def multipliedBy_def)
next
  assume "rb c ow ''Voter'' (epoch m) = Inr (Some result)
        \<and> (ts (epoch m) = Inr (Some 0) \<or> ts (epoch m) = Inr None)"
  then show "\<exists>it. resolve_masternode rb ts pool c ow m = Inr it
         \<and> masternodeReward it = Some (p_reward result)"
    by (auto simp: resolve_masternode_def)
next
  assume "rb c ow ''Voter'' (epoch m) = Inr None"
  then show "resolve_masternode rb ts pool c ow m =
        Inr \<lparr> item_epoch = epoch m, masternodeReward = Some 0, reward = None,
              rewardTime = blockCreatedAt m, signNumber = 0, item_status = MASTERNODE \<rparr>"
    by (simp add: resolve_masternode_def)
qed

theorem masternode_reward_resolution_witness:
  "(\<exists>it r. resolve_masternode (\<lambda>a ow reason e. Inr (Some example_payload)) (\<lambda>e. Inr (Some 3)) 1000
              ''0xaa'' ''0xbb'' example_masternode = Inr it
          \<and> masternodeReward it = Some r
          \<and> r = 33333333333333333333333 / 100000000000000000000
          \<and> \<bar>r - 1000 * 1 / 3\<bar> \<le> 1 / (2 * 10 ^ 20))
   \<and> (\<exists>it. resolve_masternode (\<lambda>a ow reason e. Inr (Some example_payload)) (\<lambda>e. Inr (Some 0)) 1000
              ''0xaa'' ''0xbb'' example_masternode = Inr it
          \<and> masternodeReward it = Some 7)
   \<and> resolve_masternode (\<lambda>a ow reason e. Inr None) (\<lambda>e. Inr (Some 3)) 1000
        ''0xaa'' ''0xbb'' example_masternode
      = Inr \<lparr> item_epoch = 4, masternodeReward = Some 0, reward = None,
              rewardTime = 400, signNumber = 0, item_status = MASTERNODE \<rparr>"
proof -
  have d: "dividedBy (multipliedBy 1000 (of_int 1)) (of_int 3)
           = 33333333333333333333333 / 100000000000000000000"
    by code_simp
  have p: "p_signNumber example_payload = 1" "p_reward example_payload = 7"
    by (simp_all add: example_payload_def)
  have e: "epoch example_masternode = 4" "blockCreatedAt example_masternode = 400"
    by (simp_all add: example_masternode_def)
  note t = masternode_reward_resolution
  from t [of "\<lambda>a ow reason e. Inr (Some example_payload)" "''0xaa''" "''0xbb''" example_masternode
           example_payload "\<lambda>e. Inr (Some 3)" 3 1000]
  obtain it r where a:
    "resolve_masternode (\<lambda>a ow reason e. Inr (Some example_payload)) (\<lambda>e. Inr (Some 3)) 1000
       ''0xaa'' ''0xbb'' example_masternode = Inr it"
    "masternodeReward it = Some r"
    "r = dividedBy (multipliedBy 1000 (of_int (p_signNumber example_payload))) (of_int 3)"
    "\<bar>r - 1000 * of_int (p_signNumber example_payload) / of_int 3\<bar> \<le> 1 / (2 * 10 ^ 20)"
    by auto
  from a(3) have "r = 33333333333333333333333 / 100000000000000000000"
    unfolding p d .
  moreover from a(4) have "\<bar>r - 1000 * 1 / 3\<bar> \<le> 1 / (2 * 10 ^ 20)"
    unfolding p by simp
  ultimately have 1: "\<exists>it r. resolve_masternode (\<lambda>a ow reason e. Inr (Some example_payload)) (\<lambda>e. Inr (Some 3)) 1000
              ''0xaa'' ''0xbb'' example_masternode = Inr it
          \<and> masternodeReward it = Some r
          \<and> r = 33333333333333333333333 / 100000000000000000000
          \<and> \<bar>r - 1000 * 1 / 3\<bar> \<le> 1 / (2 * 10 ^ 20)"
    using a(1,2) by blast
  from t [of "\<lambda>a ow reason e. Inr (Some example_payload)" "''0xaa''" "''0xbb''" example_masternode
           example_payload "\<lambda>e. Inr (Some 0)" 3 1000]
  have 2: "\<exists>it. resolve_masternode (\<lambda>a ow reason e. Inr (Some example_payload)) (\<lambda>e. Inr (Some 0)) 1000
              ''0xaa'' ''0xbb'' example_masternode = Inr it
          \<and> masternodeReward it = Some 7"
    using p by simp
  from t [of "\<lambda>a ow reason e. Inr None" "''0xaa''" "''0xbb''" example_masternode
           example_payload "\<lambda>e. Inr (Some 3)" 3 1000]
  have 3: "resolve_masternode (\<lambda>a ow reason e. Inr None) (\<lambda>e. Inr (Some 3)) 1000
        ''0xaa'' ''0xbb'' example_masternode
      = Inr \<lparr> item_epoch = 4, masternodeReward = Some 0, reward = None,
              rewardTime = 400, signNumber = 0, item_status = MASTERNODE \<rparr>"
    using e by simp
  from 1 2 3 show ?thesis by blast
qed

text \<open>
  C4. The claim asks for the zero amount of a propose item under the same field as the
  other categories. The penalty item (like the masternode item) has it under
  \<open>masternodeReward\<close>; the propose item has it under \<open>reward\<close> and no \<open>masternodeReward\<close>.
\<close>

theorem propose_item_reward_field:
  "masternodeReward (propose_item example_masternode) = None
   \<and> reward (propose_item example_masternode) = Some 0
   \<and> masternodeReward (penalty_item example_masternode) = Some 0
   \<and> reward (penalty_item example_masternode) = None"
  by (simp add: propose_item_def penalty_item_def)

text \<open>
  C9. The claim asks for the rejection of every \<open>limit\<close> outside 1..100. The validation
  chain lets \<open>limit=0\<close> through; the handler then reads the three categories without a
  limit and answers with no items.
\<close>

theorem limit_zero_accepted:
  "getRewards_validate (Some ''0'') None = []
   \<and> limit_of (Some ''0'') = 0
   \<and> getRewards example_rewardsByEpoch example_totalSignNumber 1000 example_db ''0xaa'' ''0xbb''
        (Some ''0'') None = Inr \<lparr> items = [], total = 3 \<rparr>"
  by code_simp

section \<open>Ownership challenge: proofs\<close>

subsection \<open>One consume\<close>

lemma find_signedId_Some:
  "findOne_signedId i db = Some d \<Longrightarrow> d \<in> set db \<and> signedId d = i"
  by (auto simp: findOne_signedId_def find_Some_iff)

lemma find_signedId_None:
  "findOne_signedId i db = None \<longleftrightarrow> i \<notin> set (map signedId db)"
  by (auto simp: findOne_signedId_def find_None_iff)

lemma consume_unknown:
  "findOne_signedId i db = None \<Longrightarrow> consume recover i msg sig signer db = (Inl (Error ''id is not match''), db)"
  by (simp add: consume_def)

lemma consume_used:
  "findOne_signedId i db = Some d \<Longrightarrow> \<not> status d \<Longrightarrow>
   consume recover i msg sig signer db = (Inl (Error ''Cannot use a QR code twice''), db)"
  by (simp add: consume_def)

lemma consume_Done:
  assumes "fst (consume recover i msg sig signer db) = Inr x"
  obtains d r where
    "findOne_signedId i db = Some d" "status d" "recover msg sig = Some r"
    "toLowerCase signer = toLowerCase r" "signedAddress d = toLowerCase r" "x = ''Done''"
    "snd (consume recover i msg sig signer db)
       = findOneAndUpdate (toLowerCase r)
           (\<lambda>d. d\<lparr> signedId := i, message := Some msg, signature := Some sig, status := False \<rparr>) db"
  using assms
  by (auto simp: consume_def Let_def verification_failed_def split: option.splits if_splits)

lemma consume_failed_keeps_store:
  "fst (consume recover i msg sig signer db) = Inl e \<Longrightarrow> snd (consume recover i msg sig signer db) = db"
  by (auto simp: consume_def Let_def split: option.splits if_splits)

text \<open>After an update of the address of the document found for an id, the id finds the updated document.\<close>

lemma find_after_update:
  assumes "findOne_signedId i db = Some d" and "signedAddress d = a" and "\<And>x. signedId (f x) = i"
  shows "\<exists>d'. d' \<in> set db \<and> signedAddress d' = a \<and>
           findOne_signedId i (findOneAndUpdate a f db) = Some (f d')"
  using assms(1,2)
proof (induction db)
  case Nil
  then show ?case by (simp add: findOne_signedId_def)
next
  case (Cons x xs)
  show ?case
  proof (cases "signedAddress x = a")
    case True
    then show ?thesis using assms(3) by (auto simp: findOne_signedId_def)
  next
    case False
    with Cons.prems have ne: "signedId x \<noteq> i"
      by (auto simp: findOne_signedId_def split: if_splits)
    with Cons.prems have "findOne_signedId i xs = Some d"
      by (simp add: findOne_signedId_def)
    from Cons.IH [OF this Cons.prems(2)] obtain d' where
      "d' \<in> set xs" "signedAddress d' = a" "findOne_signedId i (findOneAndUpdate a f xs) = Some (f d')"
      by blast
    then show ?thesis using False ne by (auto simp: findOne_signedId_def)
  qed
qed

lemma consume_stores:
  assumes "fst (consume recover i msg sig signer db) = Inr x"
  shows "\<exists>d'. findOne_signedId i (snd (consume recover i msg sig signer db)) = Some d'
            \<and> message d' = Some msg \<and> signature d' = Some sig \<and> \<not> status d' \<and> signedId d' = i
            \<and> (\<exists>r. recover msg sig = Some r \<and> signedAddress d' = toLowerCase r)"
proof -
  from assms obtain d r where d: "findOne_signedId i db = Some d" "recover msg sig = Some r"
    "signedAddress d = toLowerCase r"
    and s: "snd (consume recover i msg sig signer db)
       = findOneAndUpdate (toLowerCase r)
           (\<lambda>d. d\<lparr> signedId := i, message := Some msg, signature := Some sig, status := False \<rparr>) db"
    by (rule consume_Done)
  from find_after_update [OF d(1) d(3),
      of "\<lambda>d. d\<lparr> signedId := i, message := Some msg, signature := Some sig, status := False \<rparr>"]
  obtain d' where "signedAddress d' = toLowerCase r"
    "findOne_signedId i (findOneAndUpdate (toLowerCase r)
           (\<lambda>d. d\<lparr> signedId := i, message := Some msg, signature := Some sig, status := False \<rparr>) db)
     = Some (d'\<lparr> signedId := i, message := Some msg, signature := Some sig, status := False \<rparr>)"
    by auto
  then show ?thesis using s d(2) by simp
qed

lemma consume_twice:
  assumes "fst (consume recover i msg sig signer db) = Inr x"
  shows "consume recover' i msg' sig' signer' (snd (consume recover i msg sig signer db))
         = (Inl (Error ''Cannot use a QR code twice''), snd (consume recover i msg sig signer db))"
proof -
  from consume_stores [OF assms] obtain d' where
    "findOne_signedId i (snd (consume recover i msg sig signer db)) = Some d'" "\<not> status d'"
    by blast
  then show ?thesis by (rule consume_used)
qed

subsection \<open>Runs of requests\<close>

lemma used_up_iff: "used_up t db \<longleftrightarrow> (\<forall>d\<in>set db. signedId d = t \<longrightarrow> \<not> status d)"
  by (auto simp: used_up_def list_all_iff)

lemma set_findOneAndUpdate:
  "x \<in> set (findOneAndUpdate a f db) \<Longrightarrow>
   x \<in> set db \<or> (\<exists>y. x = f y)"
  by (induction db) (auto split: if_splits)

lemma set_updateOne:
  "x \<in> set (updateOne a f db) \<Longrightarrow> x \<in> set db \<or> (\<exists>y\<in>set db. x = f y)"
  by (induction db) (auto split: if_splits)

text \<open>What a request can do to the store.\<close>

lemma step_cases:
  obtains (same) "step cfg cs recover r db = db"
  | (issued) now uuid c a acct where "r = GenerateMessage now uuid c a"
      "step cfg cs recover r db = findOneAndUpdate acct (\<lambda>d. d\<lparr> signedId := uuid, status := True \<rparr>) db"
  | (consumed) i msg sig signer d rec where "r = VerifyScannedQR (Some i) msg sig signer"
      "findOne_signedId i db = Some d" "status d" "signedAddress d = rec"
      "fst (verifyScannedQR recover (Some i) msg sig signer db) = Inr ''Done''"
      "step cfg cs recover r db
         = findOneAndUpdate rec
             (\<lambda>d. d\<lparr> signedId := i, message := Some msg, signature := Some sig, status := False \<rparr>) db"
  | (cleared) a where "r = ClearSignature a"
      "step cfg cs recover r db = updateOne (toLowerCase a) (\<lambda>d. d\<lparr> signature := Some [] \<rparr>) db"
proof (cases r)
  case (GenerateMessage now uuid c a)
  show ?thesis
  proof (cases "step cfg cs recover r db = db")
    case True
    then show ?thesis by (rule same)
  next
    case False
    then have "step cfg cs recover r db
       = findOneAndUpdate (toLowerCase (case a of Some a \<Rightarrow> a | None \<Rightarrow> []))
           (\<lambda>d. d\<lparr> signedId := uuid, status := True \<rparr>) db"
      using GenerateMessage
      by (auto simp: generateMessage_def issue_def Let_def split: if_splits option.splits)
    with GenerateMessage show ?thesis by (rule issued)
  qed
next
  case (VerifyScannedQR q msg sig signer)
  show ?thesis
  proof (cases "fst (verifyScannedQR recover q msg sig signer db)")
    case (Inl e)
    then have "step cfg cs recover r db = db"
      using VerifyScannedQR
      by (auto simp: verifyScannedQR_def Let_def consume_failed_keeps_store split: if_splits)
    then show ?thesis by (rule same)
  next
    case (Inr x)
    then obtain i where q: "q = Some i" and v: "verifyScannedQR recover q msg sig signer db = consume recover i msg sig signer db"
      by (cases q) (auto simp: verifyScannedQR_def verifyScannedQR_validate_def Let_def split: if_splits)
    with Inr have c: "fst (consume recover i msg sig signer db) = Inr x" by simp
    from c obtain d r' where d: "findOne_signedId i db = Some d" "status d"
      "signedAddress d = toLowerCase r'" "x = ''Done''"
      "snd (consume recover i msg sig signer db)
       = findOneAndUpdate (toLowerCase r')
           (\<lambda>d. d\<lparr> signedId := i, message := Some msg, signature := Some sig, status := False \<rparr>) db"
      by (rule consume_Done)
    show ?thesis
    proof (rule consumed)
      show "r = VerifyScannedQR (Some i) msg sig signer" using VerifyScannedQR q by simp
      show "findOne_signedId i db = Some d" "status d" "signedAddress d = toLowerCase r'" by fact+
      show "fst (verifyScannedQR recover (Some i) msg sig signer db) = Inr ''Done''"
        using Inr q d(4) by simp
      show "step cfg cs recover r db
         = findOneAndUpdate (toLowerCase r')
             (\<lambda>d. d\<lparr> signedId := i, message := Some msg, signature := Some sig, status := False \<rparr>) db"
        using VerifyScannedQR v d(5) by simp
    qed
  qed
next
  case (GetSignature q)
  then have "step cfg cs recover r db = db"
    by (auto simp: getSignature_def read_challenge_def split: option.splits)
  then show ?thesis by (rule same)
next
  case (ClearSignature a)
  then show ?thesis by (intro cleared) (auto simp: clear_signature_def)
qed

lemma consumes_consume:
  "consumes recover t r db \<Longrightarrow>
   \<exists>msg sig signer. r = VerifyScannedQR (Some t) msg sig signer
      \<and> fst (consume recover t msg sig signer db) = Inr ''Done''"
  by (cases r) (auto simp: verifyScannedQR_def Let_def split: if_splits)

lemma used_up_not_consumed: "used_up t db \<Longrightarrow> \<not> consumes recover t r db"
proof
  assume u: "used_up t db" and "consumes recover t r db"
  then obtain msg sig signer where "fst (consume recover t msg sig signer db) = Inr ''Done''"
    by (auto dest: consumes_consume)
  then obtain d where "findOne_signedId t db = Some d" "status d"
    by (rule consume_Done)
  then show False using u by (auto simp: used_up_iff dest: find_signedId_Some)
qed

lemma used_up_step:
  assumes "used_up t db" and "t \<notin> set (generated_ids [r])"
  shows "used_up t (step cfg cs recover r db)"
proof (cases rule: step_cases [of cfg cs recover r db])
  case same
  then show ?thesis using assms by simp
next
  case (issued now uuid c a acct)
  then show ?thesis using assms
    by (auto simp: used_up_iff dest!: set_findOneAndUpdate)
next
  case (consumed i msg sig signer d rec)
  then show ?thesis using assms
    by (auto simp: used_up_iff dest!: set_findOneAndUpdate)
next
  case (cleared a)
  then show ?thesis using assms
    by (auto simp: used_up_iff dest!: set_updateOne)
qed

lemma generated_ids_Cons: "generated_ids (r # rs) = generated_ids [r] @ generated_ids rs"
  by (cases r) auto

lemma used_up_count:
  "used_up t db \<Longrightarrow> t \<notin> set (generated_ids rs) \<Longrightarrow> consumed_count cfg cs recover t rs db = 0"
proof (induction rs arbitrary: db)
  case Nil
  then show ?case by simp
next
  case (Cons r rs)
  from Cons.prems(2) have g: "t \<notin> set (generated_ids [r])" "t \<notin> set (generated_ids rs)"
    by (simp_all add: generated_ids_Cons [of r rs])
  have "used_up t (step cfg cs recover r db)" using Cons.prems(1) g(1) by (rule used_up_step)
  then have "consumed_count cfg cs recover t rs (step cfg cs recover r db) = 0"
    using g(2) by (rule Cons.IH)
  then show ?case using used_up_not_consumed [OF Cons.prems(1)] by simp
qed

lemma addresses_findOneAndUpdate:
  assumes "\<And>x. signedAddress (f x) = signedAddress x"
  shows "map signedAddress (findOneAndUpdate a f db)
         = (if a \<in> set (map signedAddress db) then map signedAddress db
            else map signedAddress db @ [a])"
  using assms by (induction db) auto

lemma addresses_updateOne:
  assumes "\<And>x. signedAddress (f x) = signedAddress x"
  shows "map signedAddress (updateOne a f db) = map signedAddress db"
  using assms by (induction db) auto

lemma ids_updateOne:
  assumes "\<And>x. signedId (f x) = signedId x"
  shows "map signedId (updateOne a f db) = map signedId db"
  using assms by (induction db) auto

lemma ids_findOneAndUpdate_subset:
  assumes "\<And>x. signedId (f x) = u"
  shows "set (map signedId (findOneAndUpdate a f db)) \<subseteq> insert u (set (map signedId db))"
  using assms by (induction db) auto

lemma ids_findOneAndUpdate_distinct:
  assumes "\<And>x. signedId (f x) = u" and "distinct (map signedId db)" and "u \<notin> set (map signedId db)"
  shows "distinct (map signedId (findOneAndUpdate a f db))"
  using assms(2,3)
proof (induction db)
  case Nil
  then show ?case by simp
next
  case (Cons d ds)
  show ?case
  proof (cases "signedAddress d = a")
    case True
    then show ?thesis using Cons.prems assms(1) by auto
  next
    case False
    have "signedId d \<notin> set (map signedId (findOneAndUpdate a f ds))"
      using ids_findOneAndUpdate_subset [of f u a ds, OF assms(1)] Cons.prems by auto
    then show ?thesis using False Cons by simp
  qed
qed

text \<open>With one document per address, an update of the address of a stored document is pointwise.\<close>

lemma findOneAndUpdate_present:
  assumes "distinct (map signedAddress db)" and "d \<in> set db" and "signedAddress d = a"
  shows "findOneAndUpdate a f db = map (\<lambda>x. if x = d then f x else x) db"
  using assms
proof (induction db)
  case Nil
  then show ?case by simp
next
  case (Cons x xs)
  show ?case
  proof (cases "x = d")
    case True
    then have "d \<notin> set xs" using Cons.prems(1,3) by force
    then have "map (\<lambda>x. if x = d then f x else x) xs = xs"
      by (induction xs) auto
    then show ?thesis using True Cons.prems(3) by simp
  next
    case False
    then have "d \<in> set xs" using Cons.prems(2) by simp
    moreover have "signedAddress x \<noteq> a" using Cons.prems(1,3) \<open>d \<in> set xs\<close> by force
    ultimately show ?thesis using False Cons by simp
  qed
qed

lemma addresses_pointwise:
  assumes "signedAddress (f d) = signedAddress d"
  shows "map signedAddress (map (\<lambda>x. if x = d then f x else x) db) = map signedAddress db"
  using assms by (induction db) auto

lemma ids_pointwise:
  assumes "signedId (f d) = signedId d"
  shows "map signedId (map (\<lambda>x. if x = d then f x else x) db) = map signedId db"
  using assms by (induction db) auto

text \<open>
  The write of a successful consume, on a store with one document per address and id:
  only the document found for the id changes, and it keeps its id.
\<close>

lemma consume_update_effect:
  fixes i msg sig
  defines "f \<equiv> \<lambda>d. d\<lparr> signedId := i, message := Some msg, signature := Some sig, status := False \<rparr>"
  assumes "store_ok db" and "findOne_signedId i db = Some d" and "signedAddress d = rec"
  shows "findOneAndUpdate rec f db = map (\<lambda>x. if x = d then f x else x) db"
    and "map signedAddress (findOneAndUpdate rec f db) = map signedAddress db"
    and "map signedId (findOneAndUpdate rec f db) = map signedId db"
    and "used_up i (findOneAndUpdate rec f db)"
proof -
  from assms(3) have d: "d \<in> set db" "signedId d = i" by (auto dest: find_signedId_Some)
  show eq: "findOneAndUpdate rec f db = map (\<lambda>x. if x = d then f x else x) db"
    using assms(2) d(1) assms(4) by (intro findOneAndUpdate_present) (simp_all add: store_ok_def)
  show "map signedAddress (findOneAndUpdate rec f db) = map signedAddress db"
    unfolding eq by (rule addresses_pointwise) (simp add: f_def)
  show "map signedId (findOneAndUpdate rec f db) = map signedId db"
    unfolding eq by (rule ids_pointwise) (simp add: f_def d(2))
  have "\<not> status x" if "x \<in> set (map (\<lambda>x. if x = d then f x else x) db)" "signedId x = i" for x
  proof -
    from that(1) obtain y where y: "y \<in> set db" "x = (if y = d then f y else y)" by auto
    show ?thesis
    proof (cases "y = d")
      case True
      with y show ?thesis by (simp add: f_def)
    next
      case False
      with y that(2) have "signedId y = signedId d" using d(2) by simp
      then have "y = d" using assms(2) y(1) d(1)
        by (auto simp: store_ok_def distinct_map inj_on_def)
      with False show ?thesis by simp
    qed
  qed
  then show "used_up i (findOneAndUpdate rec f db)"
    unfolding eq by (auto simp: used_up_iff)
qed

lemma store_ok_step:
  assumes "store_ok db" and "list_all (\<lambda>u. u \<notin> set (map signedId db)) (generated_ids [r])"
  shows "store_ok (step cfg cs recover r db)"
proof (cases rule: step_cases [of cfg cs recover r db])
  case same
  then show ?thesis using assms by simp
next
  case (issued now uuid c a acct)
  then have u: "uuid \<notin> set (map signedId db)" using assms(2) by simp
  have "distinct (map signedAddress (findOneAndUpdate acct (\<lambda>d. d\<lparr> signedId := uuid, status := True \<rparr>) db))"
    using assms(1) by (simp add: addresses_findOneAndUpdate store_ok_def)
  moreover have "distinct (map signedId (findOneAndUpdate acct (\<lambda>d. d\<lparr> signedId := uuid, status := True \<rparr>) db))"
    using assms(1) u by (intro ids_findOneAndUpdate_distinct [where u = uuid]) (simp_all add: store_ok_def)
  ultimately show ?thesis using issued by (simp add: store_ok_def)
next
  case (consumed i msg sig signer d rec)
  show ?thesis
    using assms(1) unfolding store_ok_def consumed(6)
      consume_update_effect(2,3) [OF assms(1) consumed(2,4)] .
next
  case (cleared a)
  then show ?thesis using assms(1)
    by (simp add: store_ok_def addresses_updateOne ids_updateOne)
qed

lemma ids_step:
  "set (map signedId (step cfg cs recover r db)) \<subseteq> set (map signedId db) \<union> set (generated_ids [r])"
proof (cases rule: step_cases [of cfg cs recover r db])
  case same
  then show ?thesis by auto
next
  case (issued now uuid c a acct)
  then show ?thesis
    using ids_findOneAndUpdate_subset [of "\<lambda>d. d\<lparr> signedId := uuid, status := True \<rparr>" uuid acct db]
    by auto
next
  case (consumed i msg sig signer d rec)
  from consumed(2) have "i \<in> set (map signedId db)" by (auto dest: find_signedId_Some)
  then show ?thesis
    using consumed(6)
      ids_findOneAndUpdate_subset [of "\<lambda>d. d\<lparr> signedId := i, message := Some msg, signature := Some sig, status := False \<rparr>" i rec db]
    by auto
next
  case (cleared a)
  then show ?thesis by (simp add: ids_updateOne)
qed

lemma fresh_ids_step:
  assumes "fresh_ids (r # rs) db"
  shows "fresh_ids rs (step cfg cs recover r db)"
proof -
  from assms have d: "distinct (generated_ids [r] @ generated_ids rs)"
    and f: "\<forall>u\<in>set (generated_ids [r] @ generated_ids rs). u \<notin> set (map signedId db)"
    unfolding fresh_ids_def generated_ids_Cons [of r rs] list_all_iff by blast+
  have "u \<notin> set (map signedId (step cfg cs recover r db))" if u: "u \<in> set (generated_ids rs)" for u
  proof
    assume "u \<in> set (map signedId (step cfg cs recover r db))"
    then have "u \<in> set (map signedId db) \<union> set (generated_ids [r])"
      using ids_step [of cfg cs recover r db] by blast
    then show False using u d f by auto
  qed
  then show ?thesis using d by (simp add: fresh_ids_def list_all_iff)
qed

lemma fresh_ids_head:
  "fresh_ids (r # rs) db \<Longrightarrow> list_all (\<lambda>u. u \<notin> set (map signedId db)) (generated_ids [r])"
  unfolding fresh_ids_def generated_ids_Cons [of r rs] by simp

lemma consume_used_up:
  assumes "store_ok db" and "fst (consume recover t msg sig signer db) = Inr x"
  shows "used_up t (snd (consume recover t msg sig signer db))"
    and "store_ok (snd (consume recover t msg sig signer db))"
    and "map signedId (snd (consume recover t msg sig signer db)) = map signedId db"
proof -
  from assms(2) obtain d r where d: "findOne_signedId t db = Some d" "signedAddress d = toLowerCase r"
    and s: "snd (consume recover t msg sig signer db)
       = findOneAndUpdate (toLowerCase r)
           (\<lambda>d. d\<lparr> signedId := t, message := Some msg, signature := Some sig, status := False \<rparr>) db"
    by (rule consume_Done)
  note e = consume_update_effect [where msg = msg and sig = sig, OF assms(1) d]
  show "used_up t (snd (consume recover t msg sig signer db))"
    unfolding s by (rule e(4))
  show "map signedId (snd (consume recover t msg sig signer db)) = map signedId db"
    unfolding s by (rule e(3))
  show "store_ok (snd (consume recover t msg sig signer db))"
    using assms(1) unfolding store_ok_def s e(2,3) .
qed

lemma consumed_is_used_up:
  assumes "store_ok db" and "consumes recover t r db"
  shows "used_up t (step cfg cs recover r db)"
proof -
  from assms(2) obtain msg sig signer where r: "r = VerifyScannedQR (Some t) msg sig signer"
    and c: "fst (consume recover t msg sig signer db) = Inr ''Done''"
    by (auto dest: consumes_consume)
  have "verifyScannedQR recover (Some t) msg sig signer db = consume recover t msg sig signer db"
    using assms(2) r by (auto simp: verifyScannedQR_def Let_def split: if_splits)
  then have "step cfg cs recover r db = snd (consume recover t msg sig signer db)"
    using r by simp
  then show ?thesis using consume_used_up(1) [OF assms(1) c] by simp
qed

lemma consumed_once_not_regenerated:
  "store_ok db \<Longrightarrow> fresh_ids rs db \<Longrightarrow> t \<notin> set (generated_ids rs) \<Longrightarrow>
   consumed_count cfg cs recover t rs db \<le> 1"
proof (induction rs arbitrary: db)
  case Nil
  then show ?case by simp
next
  case (Cons r rs)
  from Cons.prems(3) have g: "t \<notin> set (generated_ids [r])" "t \<notin> set (generated_ids rs)"
    by (simp_all add: generated_ids_Cons [of r rs])
  have ok: "store_ok (step cfg cs recover r db)"
    using Cons.prems(1) fresh_ids_head [OF Cons.prems(2)] by (rule store_ok_step)
  have fr: "fresh_ids rs (step cfg cs recover r db)"
    using Cons.prems(2) by (rule fresh_ids_step)
  show ?case
  proof (cases "consumes recover t r db")
    case True
    with Cons.prems(1) have "used_up t (step cfg cs recover r db)" by (rule consumed_is_used_up)
    then have "consumed_count cfg cs recover t rs (step cfg cs recover r db) = 0"
      using g(2) by (rule used_up_count)
    then show ?thesis by simp
  next
    case False
    then show ?thesis using Cons.IH [OF ok fr g(2)] by simp
  qed
qed

lemma consumed_at_most_once:
  "store_ok db \<Longrightarrow> fresh_ids rs db \<Longrightarrow> consumed_count cfg cs recover t rs db \<le> 1"
proof (induction rs arbitrary: db)
  case Nil
  then show ?case by simp
next
  case (Cons r rs)
  show ?case
  proof (cases "t \<in> set (generated_ids (r # rs))")
    case False
    with Cons.prems show ?thesis by (intro consumed_once_not_regenerated)
  next
    case True
    with Cons.prems(2) have "t \<notin> set (map signedId db)"
      by (auto simp: fresh_ids_def list_all_iff)
    then have "findOne_signedId t db = None" by (simp add: find_signedId_None)
    then have "\<not> consumes recover t r db"
      by (auto dest!: consumes_consume simp: consume_unknown)
    moreover have "consumed_count cfg cs recover t rs (step cfg cs recover r db) \<le> 1"
      using Cons.prems fresh_ids_head [OF Cons.prems(2)]
      by (intro Cons.IH store_ok_step fresh_ids_step)
    ultimately show ?thesis by simp
  qed
qed


text \<open>The routes keep one document per address and id, from the empty store on.\<close>

lemma store_ok_run:
  "store_ok db \<Longrightarrow> fresh_ids rs db \<Longrightarrow> store_ok (run cfg cs recover rs db)"
proof (induction rs arbitrary: db)
  case Nil
  then show ?case by simp
next
  case (Cons r rs)
  have "store_ok (step cfg cs recover r db)"
    using Cons.prems(1) fresh_ids_head [OF Cons.prems(2)] by (rule store_ok_step)
  moreover have "fresh_ids rs (step cfg cs recover r db)"
    using Cons.prems(2) by (rule fresh_ids_step)
  ultimately show ?case using Cons.IH by simp
qed

lemma store_ok_empty: "store_ok []"
  by (simp add: store_ok_def)

subsection \<open>A consumed token stays consumed while no challenge is issued\<close>

lemma ids_kept:
  assumes "store_ok db" and "generated_ids [r] = []"
  shows "map signedId (step cfg cs recover r db) = map signedId db"
proof (cases rule: step_cases [of cfg cs recover r db])
  case same
  then show ?thesis by simp
next
  case (issued now uuid c a acct)
  with assms(2) show ?thesis by simp
next
  case (consumed i msg sig signer d rec)
  show ?thesis
    unfolding consumed(6) by (rule consume_update_effect(3) [OF assms(1) consumed(2,4)])
next
  case (cleared a)
  then show ?thesis by (simp add: ids_updateOne)
qed

lemma used_up_run:
  "store_ok db \<Longrightarrow> used_up t db \<Longrightarrow> t \<in> set (map signedId db) \<Longrightarrow> generated_ids rs = [] \<Longrightarrow>
   used_up t (run cfg cs recover rs db) \<and> t \<in> set (map signedId (run cfg cs recover rs db))"
proof (induction rs arbitrary: db)
  case Nil
  then show ?case by simp
next
  case (Cons r rs)
  from Cons.prems(4) have g: "generated_ids [r] = []" "generated_ids rs = []"
    using generated_ids_Cons [of r rs] by simp_all
  have "store_ok (step cfg cs recover r db)"
    using Cons.prems(1) g(1) by (intro store_ok_step) simp_all
  moreover have "used_up t (step cfg cs recover r db)"
    using Cons.prems(2) g(1) by (intro used_up_step) simp_all
  moreover have "t \<in> set (map signedId (step cfg cs recover r db))"
    using Cons.prems(1,3) g(1) by (simp only: ids_kept)
  ultimately show ?case using Cons.IH g(2) by simp
qed

lemma used_up_consume:
  assumes "used_up t db" and "t \<in> set (map signedId db)"
  shows "consume recover t msg sig signer db = (Inl (Error ''Cannot use a QR code twice''), db)"
proof -
  from assms(2) obtain d where d: "findOne_signedId t db = Some d"
    using find_signedId_None [of t db] by (cases "findOne_signedId t db") auto
  then have "\<not> status d" using assms(1) by (auto simp: used_up_iff dest: find_signedId_Some)
  with d show ?thesis by (rule consume_used)
qed

lemma consume_later:
  assumes "store_ok db" and "fst (consume recover t msg sig signer db) = Inr x"
    and "generated_ids rs = []"
  shows "fst (consume recover' t msg' sig' signer'
                (run cfg cs recover rs (snd (consume recover t msg sig signer db))))
         = Inl (Error ''Cannot use a QR code twice'')"
proof -
  let ?db = "snd (consume recover t msg sig signer db)"
  note u = consume_used_up [OF assms(1,2)]
  have "t \<in> set (map signedId ?db)"
    using consume_stores [OF assms(2)] by (auto dest!: find_signedId_Some)
  with u(2,1) have "used_up t (run cfg cs recover rs ?db)
      \<and> t \<in> set (map signedId (run cfg cs recover rs ?db))"
    using assms(3) by (rule used_up_run)
  then show ?thesis by (simp add: used_up_consume)
qed

subsection \<open>Letter case of the arguments\<close>

lemma consume_signer_case:
  "toLowerCase signer = toLowerCase signer' \<Longrightarrow>
   consume recover i msg sig signer db = consume recover i msg sig signer' db"
  by (simp add: consume_def)

lemma issue_account_case:
  "toLowerCase account = toLowerCase account' \<Longrightarrow>
   issue cfg cs now uuid c account db = issue cfg cs now uuid c account' db"
  by (simp add: issue_def)

subsection \<open>Reading\<close>

lemma read_repeatedly_eq:
  "read_repeatedly n t db = (replicate n (fst (read_challenge t db)), db)"
  by (induction n) (auto simp: read_challenge_def split: option.splits)

subsection \<open>Runs that issue new challenges\<close>

lemma issued_accounts_Cons:
  "issued_accounts cfg cs (r # rs) = issued_accounts cfg cs [r] @ issued_accounts cfg cs rs"
  by (cases r) auto

lemma cleared_accounts_Cons:
  "cleared_accounts (r # rs) = cleared_accounts [r] @ cleared_accounts rs"
  by (cases r) auto

lemma generateMessage_store:
  "snd (generateMessage cfg cs now uuid c a db)
   = (case map signedAddress (snd (generateMessage cfg cs now uuid c a [])) of
        [] \<Rightarrow> db
      | acct # rest \<Rightarrow> findOneAndUpdate acct (\<lambda>d. d\<lparr> signedId := uuid, status := True \<rparr>) db)"
  by (auto simp: generateMessage_def issue_def Let_def split: option.splits)

lemma step_issue:
  "step cfg cs recover (GenerateMessage now uuid c a) db
   = (case issued_accounts cfg cs [GenerateMessage now uuid c a] of
        [] \<Rightarrow> db
      | acct # rest \<Rightarrow> findOneAndUpdate acct (\<lambda>d. d\<lparr> signedId := uuid, status := True \<rparr>) db)"
  using generateMessage_store [of cfg cs now uuid c a db] by simp

lemma doc_kept_findOneAndUpdate:
  "d \<in> set db \<Longrightarrow> signedAddress d \<noteq> acct \<Longrightarrow> d \<in> set (findOneAndUpdate acct f db)"
  by (induction db) auto

lemma doc_kept_updateOne:
  "d \<in> set db \<Longrightarrow> signedAddress d \<noteq> acct \<Longrightarrow> d \<in> set (updateOne acct f db)"
  by (induction db) auto

lemma find_unique:
  assumes "store_ok db" and "d \<in> set db"
  shows "findOne_signedId (signedId d) db = Some d"
proof (cases "findOne_signedId (signedId d) db")
  case None
  then show ?thesis using assms(2) by (auto simp: find_signedId_None)
next
  case (Some d')
  then have "d' \<in> set db" "signedId d' = signedId d" by (auto dest: find_signedId_Some)
  then have "d' = d" using assms by (auto simp: store_ok_def distinct_map inj_on_def)
  with Some show ?thesis by simp
qed

text \<open>A closed document stays as it is under a request that neither issues for its account nor empties its signature.\<close>

lemma closed_doc_step:
  assumes "store_ok db" and "d \<in> set db" and "\<not> status d"
    and "signedAddress d \<notin> set (issued_accounts cfg cs [r])"
    and "signedAddress d \<notin> set (cleared_accounts [r])"
  shows "d \<in> set (step cfg cs recover r db)"
proof (cases r)
  case (GenerateMessage now uuid c a)
  show ?thesis
  proof (cases "issued_accounts cfg cs [r]")
    case Nil
    then show ?thesis using assms(2) GenerateMessage step_issue [of cfg cs recover now uuid c a db]
      by simp
  next
    case (Cons acct rest)
    then have "signedAddress d \<noteq> acct" using assms(4) by auto
    then have "d \<in> set (findOneAndUpdate acct (\<lambda>d. d\<lparr> signedId := uuid, status := True \<rparr>) db)"
      using assms(2) by (intro doc_kept_findOneAndUpdate)
    then show ?thesis using Cons GenerateMessage step_issue [of cfg cs recover now uuid c a db]
      by simp
  qed
next
  case (VerifyScannedQR q msg sig signer)
  show ?thesis
  proof (cases rule: step_cases [of cfg cs recover r db])
    case same
    then show ?thesis using assms(2) by simp
  next
    case (issued now uuid c a acct)
    then show ?thesis using VerifyScannedQR by simp
  next
    case (consumed i msg sig signer d' rec)
    have "d \<noteq> d'" using consumed(3) assms(3) by auto
    then show ?thesis
      unfolding consumed(6)
        consume_update_effect(1) [where msg = msg and sig = sig, OF assms(1) consumed(2,4)]
      using assms(2) by auto
  next
    case (cleared a)
    then show ?thesis using VerifyScannedQR by simp
  qed
next
  case (GetSignature q)
  then show ?thesis using assms(2)
    by (auto simp: getSignature_def read_challenge_def split: option.splits)
next
  case (ClearSignature a)
  then have "signedAddress d \<noteq> toLowerCase a" using assms(5) by simp
  then show ?thesis using ClearSignature assms(2)
    by (simp add: clear_signature_def doc_kept_updateOne)
qed

lemma closed_doc_run:
  "store_ok db \<Longrightarrow> fresh_ids rs db \<Longrightarrow> d \<in> set db \<Longrightarrow> \<not> status d \<Longrightarrow>
   signedAddress d \<notin> set (issued_accounts cfg cs rs) \<Longrightarrow>
   signedAddress d \<notin> set (cleared_accounts rs) \<Longrightarrow>
   d \<in> set (run cfg cs recover rs db) \<and> store_ok (run cfg cs recover rs db)"
proof (induction rs arbitrary: db)
  case Nil
  then show ?case by simp
next
  case (Cons r rs)
  from Cons.prems(5) have i: "signedAddress d \<notin> set (issued_accounts cfg cs [r])"
      "signedAddress d \<notin> set (issued_accounts cfg cs rs)"
    using issued_accounts_Cons [of cfg cs r rs] by auto
  from Cons.prems(6) have c: "signedAddress d \<notin> set (cleared_accounts [r])"
      "signedAddress d \<notin> set (cleared_accounts rs)"
    using cleared_accounts_Cons [of r rs] by auto
  have ok: "store_ok (step cfg cs recover r db)"
    using Cons.prems(1) fresh_ids_head [OF Cons.prems(2)] by (rule store_ok_step)
  have fr: "fresh_ids rs (step cfg cs recover r db)"
    using Cons.prems(2) by (rule fresh_ids_step)
  have "d \<in> set (step cfg cs recover r db)"
    using Cons.prems(1,3,4) i(1) c(1) by (rule closed_doc_step)
  from Cons.IH [OF ok fr this Cons.prems(4) i(2) c(2)] show ?case by simp
qed

lemma read_after_run:
  assumes "store_ok db" and "fresh_ids rs db" and "findOne_signedId t db = Some s" and "\<not> status s"
    and "signedAddress s \<notin> set (issued_accounts cfg cs rs)"
    and "signedAddress s \<notin> set (cleared_accounts rs)"
  shows "fst (getSignature (Some t) (run cfg cs recover rs db)) = Inr (SignatureOf (signature s))"
proof -
  from assms(3) have s: "s \<in> set db" "signedId s = t" by (auto dest: find_signedId_Some)
  from closed_doc_run [OF assms(1,2) s(1) assms(4,5,6)]
  have "s \<in> set (run cfg cs recover rs db)" "store_ok (run cfg cs recover rs db)" by simp_all
  then have "findOne_signedId t (run cfg cs recover rs db) = Some s"
    using find_unique [of "run cfg cs recover rs db" s] s(2) by simp
  then show ?thesis using assms(4) by (simp add: getSignature_def read_challenge_def)
qed

lemma issued_accounts_single:
  "issued_accounts cfg cs [r] = [] \<or> (\<exists>acct. issued_accounts cfg cs [r] = [acct])"
  by (cases r) (auto simp: generateMessage_def issue_def Let_def split: option.splits)

text \<open>The document of account \<open>a\<close> carries token \<open>t\<close>.\<close>

lemma holder_step:
  assumes "store_ok db" and "d \<in> set db" and "signedAddress d = a" and "signedId d = t"
    and "a \<notin> set (issued_accounts cfg cs [r])"
  shows "\<exists>d'\<in>set (step cfg cs recover r db). signedAddress d' = a \<and> signedId d' = t"
proof (cases r)
  case (GenerateMessage now uuid c acc)
  show ?thesis
  proof (cases "issued_accounts cfg cs [r]")
    case Nil
    then show ?thesis using assms(2,3,4) GenerateMessage step_issue [of cfg cs recover now uuid c acc db]
      by auto
  next
    case (Cons acct rest)
    then have "signedAddress d \<noteq> acct" using assms(3,5) by auto
    then have "d \<in> set (findOneAndUpdate acct (\<lambda>d. d\<lparr> signedId := uuid, status := True \<rparr>) db)"
      using assms(2) by (intro doc_kept_findOneAndUpdate)
    then show ?thesis using Cons GenerateMessage assms(3,4)
        step_issue [of cfg cs recover now uuid c acc db]
      by auto
  qed
next
  case (VerifyScannedQR q msg sig signer)
  show ?thesis
  proof (cases rule: step_cases [of cfg cs recover r db])
    case same
    then show ?thesis using assms(2,3,4) by auto
  next
    case (issued now uuid c a acct)
    then show ?thesis using VerifyScannedQR by simp
  next
    case (consumed i msg sig signer d' rec)
    let ?f = "\<lambda>d. d\<lparr> signedId := i, message := Some msg, signature := Some sig, status := False \<rparr>"
    from consumed(2) have d': "signedId d' = i" by (auto dest: find_signedId_Some)
    have "(if d = d' then ?f d else d) \<in> set (map (\<lambda>x. if x = d' then ?f x else x) db)"
      using assms(2) by auto
    moreover have "signedAddress (if d = d' then ?f d else d) = a"
      "signedId (if d = d' then ?f d else d) = t"
      using assms(3,4) d' by auto
    ultimately show ?thesis
      unfolding consumed(6)
        consume_update_effect(1) [where msg = msg and sig = sig, OF assms(1) consumed(2,4)]
      by blast
  next
    case (cleared a)
    then show ?thesis using VerifyScannedQR by simp
  qed
next
  case (GetSignature q)
  then show ?thesis using assms(2,3,4)
    by (auto simp: getSignature_def read_challenge_def split: option.splits)
next
  case (ClearSignature a')
  let ?g = "\<lambda>d. d\<lparr> signature := Some [] \<rparr>"
  have "\<exists>d'\<in>set (updateOne acct ?g db). signedAddress d' = a \<and> signedId d' = t" for acct
    using assms(2,3,4) by (induction db) auto
  then show ?thesis using ClearSignature by (simp add: clear_signature_def)
qed

lemma token_replaced:
  assumes "store_ok db" and "d \<in> set db" and "signedAddress d = a" and "signedId d = t"
    and "\<And>x. signedId (f x) = u" and "u \<noteq> t"
  shows "t \<notin> set (map signedId (findOneAndUpdate a f db))"
proof -
  have eq: "findOneAndUpdate a f db = map (\<lambda>x. if x = d then f x else x) db"
    using assms(1,2,3) by (intro findOneAndUpdate_present) (simp_all add: store_ok_def)
  have "signedId (if y = d then f y else y) \<noteq> t" if "y \<in> set db" for y
  proof (cases "y = d")
    case True
    then show ?thesis using assms(5,6) by simp
  next
    case False
    then have "signedId y \<noteq> signedId d"
      using assms(1,2) that by (auto simp: store_ok_def distinct_map inj_on_def)
    then show ?thesis using False assms(4) by simp
  qed
  then show ?thesis unfolding eq by auto
qed

lemma absent_run:
  "t \<notin> set (map signedId db) \<Longrightarrow> t \<notin> set (generated_ids rs) \<Longrightarrow>
   t \<notin> set (map signedId (run cfg cs recover rs db))"
proof (induction rs arbitrary: db)
  case Nil
  then show ?case by simp
next
  case (Cons r rs)
  from Cons.prems(2) have g: "t \<notin> set (generated_ids [r])" "t \<notin> set (generated_ids rs)"
    by (simp_all add: generated_ids_Cons [of r rs])
  have "t \<notin> set (map signedId (step cfg cs recover r db))"
    using Cons.prems(1) g(1) ids_step [of cfg cs recover r db] by blast
  then show ?case using Cons.IH g(2) by simp
qed

lemma fresh_ids_not_generated:
  "fresh_ids rs db \<Longrightarrow> t \<in> set (map signedId db) \<Longrightarrow> t \<notin> set (generated_ids rs)"
  by (auto simp: fresh_ids_def list_all_iff)

lemma held_token_run:
  "store_ok db \<Longrightarrow> fresh_ids rs db \<Longrightarrow> used_up t db \<Longrightarrow>
   d \<in> set db \<Longrightarrow> signedAddress d = a \<Longrightarrow> signedId d = t \<Longrightarrow>
   a \<notin> set (issued_accounts cfg cs rs) \<Longrightarrow>
   used_up t (run cfg cs recover rs db) \<and> t \<in> set (map signedId (run cfg cs recover rs db))"
proof (induction rs arbitrary: db d)
  case Nil
  then show ?case by auto
next
  case (Cons r rs)
  from Cons.prems(7) have i: "a \<notin> set (issued_accounts cfg cs [r])"
      "a \<notin> set (issued_accounts cfg cs rs)"
    using issued_accounts_Cons [of cfg cs r rs] by auto
  have "t \<in> set (map signedId db)" using Cons.prems(4,6) by auto
  then have "t \<notin> set (generated_ids (r # rs))"
    using Cons.prems(2) by (intro fresh_ids_not_generated)
  then have g: "t \<notin> set (generated_ids [r])"
    by (simp add: generated_ids_Cons [of r rs])
  have ok: "store_ok (step cfg cs recover r db)"
    using Cons.prems(1) fresh_ids_head [OF Cons.prems(2)] by (rule store_ok_step)
  have fr: "fresh_ids rs (step cfg cs recover r db)"
    using Cons.prems(2) by (rule fresh_ids_step)
  have u: "used_up t (step cfg cs recover r db)"
    using Cons.prems(3) g by (rule used_up_step)
  from holder_step [OF Cons.prems(1,4,5,6) i(1)] obtain d' where
    d': "d' \<in> set (step cfg cs recover r db)" "signedAddress d' = a" "signedId d' = t"
    by blast
  from Cons.IH [OF ok fr u d' i(2)] show ?case by simp
qed

lemma replaced_token_run:
  "store_ok db \<Longrightarrow> fresh_ids rs db \<Longrightarrow>
   d \<in> set db \<Longrightarrow> signedAddress d = a \<Longrightarrow> signedId d = t \<Longrightarrow>
   a \<in> set (issued_accounts cfg cs rs) \<Longrightarrow>
   t \<notin> set (map signedId (run cfg cs recover rs db))"
proof (induction rs arbitrary: db d)
  case Nil
  then show ?case by simp
next
  case (Cons r rs)
  have "t \<in> set (map signedId db)" using Cons.prems(3,5) by auto
  then have "t \<notin> set (generated_ids (r # rs))"
    using Cons.prems(2) by (intro fresh_ids_not_generated)
  then have g: "t \<notin> set (generated_ids [r])" "t \<notin> set (generated_ids rs)"
    by (simp_all add: generated_ids_Cons [of r rs])
  show ?case
  proof (cases "a \<in> set (issued_accounts cfg cs [r])")
    case True
    then obtain now uuid c acc where r: "r = GenerateMessage now uuid c acc"
      by (cases r) auto
    from True issued_accounts_single [of cfg cs r] have "issued_accounts cfg cs [r] = [a]"
      by auto
    then have st: "step cfg cs recover r db
        = findOneAndUpdate a (\<lambda>d. d\<lparr> signedId := uuid, status := True \<rparr>) db"
      using r step_issue [of cfg cs recover now uuid c acc db] by simp
    have "uuid \<noteq> t" using g(1) r by simp
    then have "t \<notin> set (map signedId (step cfg cs recover r db))"
      unfolding st using Cons.prems(1,3,4,5) by (intro token_replaced [where u = uuid]) simp_all
    then have "t \<notin> set (map signedId (run cfg cs recover rs (step cfg cs recover r db)))"
      using g(2) by (rule absent_run)
    then show ?thesis by simp
  next
    case False
    then have i: "a \<in> set (issued_accounts cfg cs rs)"
      using Cons.prems(6) issued_accounts_Cons [of cfg cs r rs] by auto
    have ok: "store_ok (step cfg cs recover r db)"
      using Cons.prems(1) fresh_ids_head [OF Cons.prems(2)] by (rule store_ok_step)
    have fr: "fresh_ids rs (step cfg cs recover r db)"
      using Cons.prems(2) by (rule fresh_ids_step)
    from holder_step [OF Cons.prems(1,3,4,5) False] obtain d' where
      d': "d' \<in> set (step cfg cs recover r db)" "signedAddress d' = a" "signedId d' = t"
      by blast
    from Cons.IH [OF ok fr d' i] show ?thesis by simp
  qed
qed

text \<open>
  After a consume that answered \<open>Done\<close>: what a later consume of the token answers.
\<close>

lemma consume_after_run:
  assumes "store_ok db" and "fst (consume recover t msg sig signer db) = Inr x"
    and "fresh_ids rs db"
  shows "fst (consume recover' t msg' sig' signer'
                (run cfg cs recover rs (snd (consume recover t msg sig signer db))))
         = (if toLowerCase signer \<in> set (issued_accounts cfg cs rs)
            then Inl (Error ''id is not match'')
            else Inl (Error ''Cannot use a QR code twice''))"
proof -
  let ?db = "snd (consume recover t msg sig signer db)"
  note u = consume_used_up [OF assms(1,2)]
  have fr: "fresh_ids rs ?db" using assms(3) by (simp add: fresh_ids_def u(3))
  from assms(2) obtain r where r: "recover msg sig = Some r" "toLowerCase signer = toLowerCase r"
    by (rule consume_Done)
  from consume_stores [OF assms(2)] r(1) obtain d' where
    d': "findOne_signedId t ?db = Some d'" "signedAddress d' = toLowerCase r" "signedId d' = t"
    by auto
  then have m: "d' \<in> set ?db" by (auto dest: find_signedId_Some)
  have a: "signedAddress d' = toLowerCase signer" using d'(2) r(2) by simp
  show ?thesis
  proof (cases "toLowerCase signer \<in> set (issued_accounts cfg cs rs)")
    case True
    from replaced_token_run [OF u(2) fr m a d'(3) True]
    have "findOne_signedId t (run cfg cs recover rs ?db) = None"
      by (simp add: find_signedId_None)
    then show ?thesis using True by (simp add: consume_unknown)
  next
    case False
    from held_token_run [OF u(2) fr u(1) m a d'(3) False]
    show ?thesis using False by (simp add: used_up_consume)
  qed
qed

subsection \<open>Claims about the challenge protocol\<close>

text \<open>
  C5, as amended. A consume of a token that no document carries fails with
  \<open>id is not match\<close>. A consume of a token whose document is no longer open fails with
  \<open>Cannot use a QR code twice\<close> whatever signature recovery would do, so before it. After
  a consume that answered \<open>Done\<close>, a further consume of the same token never answers
  \<open>Done\<close>, whatever its other arguments: at once it fails with
  \<open>Cannot use a QR code twice\<close>; after a run of requests with fresh uuids it fails with
  \<open>Cannot use a QR code twice\<close> when the run has issued no new challenge for the signer's
  account, and with \<open>id is not match\<close> when it has, the new challenge having taken the
  place of the token. In a run whose uuids are fresh, a token is consumed at most once.
\<close>

theorem consume_single_use:
  "(findOne_signedId t db = None \<longrightarrow>
      consume recover t msg sig signer db = (Inl (Error ''id is not match''), db))
   \<and> (\<forall>d. findOne_signedId t db = Some d \<and> \<not> status d \<longrightarrow>
        (\<forall>recover'. consume recover' t msg sig signer db
                       = (Inl (Error ''Cannot use a QR code twice''), db)))
   \<and> (fst (consume recover t msg sig signer db) = Inr ''Done'' \<longrightarrow>
        (\<forall>recover' msg' sig' signer'.
           fst (consume recover' t msg' sig' signer' (snd (consume recover t msg sig signer db)))
           = Inl (Error ''Cannot use a QR code twice'')))
   \<and> (store_ok db \<and> fst (consume recover t msg sig signer db) = Inr ''Done''
        \<and> fresh_ids rs db \<longrightarrow>
        (\<forall>recover' msg' sig' signer'.
           fst (consume recover' t msg' sig' signer'
                  (run cfg cs recover rs (snd (consume recover t msg sig signer db))))
           = (if toLowerCase signer \<in> set (issued_accounts cfg cs rs)
              then Inl (Error ''id is not match'')
              else Inl (Error ''Cannot use a QR code twice''))))
   \<and> (store_ok db \<and> fresh_ids rs db \<longrightarrow> consumed_count cfg cs recover t rs db \<le> 1)"
proof (intro conjI impI allI)
  assume "findOne_signedId t db = None"
  then show "consume recover t msg sig signer db = (Inl (Error ''id is not match''), db)"
    by (rule consume_unknown)
next
  fix d recover'
  assume "findOne_signedId t db = Some d \<and> \<not> status d"
  then show "consume recover' t msg sig signer db = (Inl (Error ''Cannot use a QR code twice''), db)"
    by (simp add: consume_used)
next
  fix recover' msg' sig' signer'
  assume "fst (consume recover t msg sig signer db) = Inr ''Done''"
  then show "fst (consume recover' t msg' sig' signer' (snd (consume recover t msg sig signer db)))
           = Inl (Error ''Cannot use a QR code twice'')"
    by (simp add: consume_twice)
next
  fix recover' msg' sig' signer'
  assume a: "store_ok db \<and> fst (consume recover t msg sig signer db) = Inr ''Done''
        \<and> fresh_ids rs db"
  then have "store_ok db" "fst (consume recover t msg sig signer db) = Inr ''Done''" "fresh_ids rs db"
    by simp_all
  then show "fst (consume recover' t msg' sig' signer'
                  (run cfg cs recover rs (snd (consume recover t msg sig signer db))))
           = (if toLowerCase signer \<in> set (issued_accounts cfg cs rs)
              then Inl (Error ''id is not match'')
              else Inl (Error ''Cannot use a QR code twice''))"
    by (rule consume_after_run)
next
  assume "store_ok db \<and> fresh_ids rs db"
  then show "consumed_count cfg cs recover t rs db \<le> 1"
    by (intro consumed_at_most_once) simp_all
qed

theorem consume_single_use_witness:
  "(findOne_signedId ''id-9'' example_issued = None
     \<and> consume example_recover ''id-9'' ''msg'' ''signed-by-cd'' ''0xCd'' example_issued
         = (Inl (Error ''id is not match''), example_issued))
   \<and> (findOne_signedId ''id-1'' example_consumed = Some (hd example_consumed)
        \<and> \<not> status (hd example_consumed)
        \<and> consume (\<lambda>m s. None) ''id-1'' ''msg'' ''signed-by-cd'' ''0xCd'' example_consumed
            = (Inl (Error ''Cannot use a QR code twice''), example_consumed))
   \<and> (fst (consume example_recover ''id-1'' ''msg'' ''signed-by-cd'' ''0xCd'' example_issued) = Inr ''Done''
        \<and> fst (consume example_recover ''id-1'' ''msg'' ''signed-by-cd'' ''0xCd''
                 (snd (consume example_recover ''id-1'' ''msg'' ''signed-by-cd'' ''0xCd'' example_issued)))
            = Inl (Error ''Cannot use a QR code twice''))
   \<and> (store_ok example_issued
        \<and> fresh_ids example_other_account example_issued
        \<and> toLowerCase ''0xCd'' \<notin> set (issued_accounts example_config example_candidates example_other_account)
        \<and> fst (consume example_recover ''id-1'' ''msg'' ''signed-by-cd'' ''0xCd''
                 (run example_config example_candidates example_recover example_other_account
                    (snd (consume example_recover ''id-1'' ''msg'' ''signed-by-cd'' ''0xCd'' example_issued))))
            = Inl (Error ''Cannot use a QR code twice''))
   \<and> (fresh_ids example_same_account example_issued
        \<and> toLowerCase ''0xCd'' \<in> set (issued_accounts example_config example_candidates example_same_account)
        \<and> fst (consume example_recover ''id-1'' ''msg'' ''signed-by-cd'' ''0xCd''
                 (run example_config example_candidates example_recover example_same_account
                    (snd (consume example_recover ''id-1'' ''msg'' ''signed-by-cd'' ''0xCd'' example_issued))))
            = Inl (Error ''id is not match''))
   \<and> (store_ok [] \<and> fresh_ids example_requests []
        \<and> consumed_count example_config example_candidates example_recover ''id-1''
             example_requests [] \<le> 1)"
proof -
  have h1: "findOne_signedId ''id-9'' example_issued = None" by code_simp
  have h2: "findOne_signedId ''id-1'' example_consumed = Some (hd example_consumed)"
    "\<not> status (hd example_consumed)" by code_simp+
  have h3: "fst (consume example_recover ''id-1'' ''msg'' ''signed-by-cd'' ''0xCd'' example_issued) = Inr ''Done''"
    by code_simp
  have h4: "store_ok example_issued"
    "fresh_ids example_other_account example_issued"
    "toLowerCase ''0xCd'' \<notin> set (issued_accounts example_config example_candidates example_other_account)"
    by code_simp+
  have h4': "fresh_ids example_same_account example_issued"
    "toLowerCase ''0xCd'' \<in> set (issued_accounts example_config example_candidates example_same_account)"
    by code_simp+
  have h5: "store_ok []" "fresh_ids example_requests []" by code_simp+
  note t1 = consume_single_use [where t = "''id-9''" and db = example_issued
      and recover = example_recover and msg = "''msg''" and sig = "''signed-by-cd''"
      and signer = "''0xCd''"]
  note t2 = consume_single_use [where t = "''id-1''" and db = example_consumed
      and msg = "''msg''" and sig = "''signed-by-cd''" and signer = "''0xCd''"]
  note t3 = consume_single_use [where t = "''id-1''" and db = example_issued
      and recover = example_recover and msg = "''msg''" and sig = "''signed-by-cd''"
      and signer = "''0xCd''" and cfg = example_config and cs = example_candidates
      and rs = example_other_account]
  note t4 = consume_single_use [where t = "''id-1''" and db = example_issued
      and recover = example_recover and msg = "''msg''" and sig = "''signed-by-cd''"
      and signer = "''0xCd''" and cfg = example_config and cs = example_candidates
      and rs = example_same_account]
  note t5 = consume_single_use [where t = "''id-1''" and db = "[]"
      and recover = example_recover and cfg = example_config and cs = example_candidates
      and rs = example_requests]
  from t1 h1 have 1: "consume example_recover ''id-9'' ''msg'' ''signed-by-cd'' ''0xCd'' example_issued
         = (Inl (Error ''id is not match''), example_issued)" by blast
  from t2 h2 have 2: "consume (\<lambda>m s. None) ''id-1'' ''msg'' ''signed-by-cd'' ''0xCd'' example_consumed
            = (Inl (Error ''Cannot use a QR code twice''), example_consumed)" by blast
  from t3 h3 have 3: "fst (consume example_recover ''id-1'' ''msg'' ''signed-by-cd'' ''0xCd''
                 (snd (consume example_recover ''id-1'' ''msg'' ''signed-by-cd'' ''0xCd'' example_issued)))
            = Inl (Error ''Cannot use a QR code twice'')" by blast
  from t3 h3 h4(1,2) have "fst (consume example_recover ''id-1'' ''msg'' ''signed-by-cd'' ''0xCd''
                 (run example_config example_candidates example_recover example_other_account
                    (snd (consume example_recover ''id-1'' ''msg'' ''signed-by-cd'' ''0xCd'' example_issued))))
            = (if toLowerCase ''0xCd'' \<in> set (issued_accounts example_config example_candidates example_other_account)
               then Inl (Error ''id is not match'')
               else Inl (Error ''Cannot use a QR code twice''))" by blast
  with h4(3) have 4: "fst (consume example_recover ''id-1'' ''msg'' ''signed-by-cd'' ''0xCd''
                 (run example_config example_candidates example_recover example_other_account
                    (snd (consume example_recover ''id-1'' ''msg'' ''signed-by-cd'' ''0xCd'' example_issued))))
            = Inl (Error ''Cannot use a QR code twice'')" by simp
  from t4 h3 h4(1) h4'(1) have "fst (consume example_recover ''id-1'' ''msg'' ''signed-by-cd'' ''0xCd''
                 (run example_config example_candidates example_recover example_same_account
                    (snd (consume example_recover ''id-1'' ''msg'' ''signed-by-cd'' ''0xCd'' example_issued))))
            = (if toLowerCase ''0xCd'' \<in> set (issued_accounts example_config example_candidates example_same_account)
               then Inl (Error ''id is not match'')
               else Inl (Error ''Cannot use a QR code twice''))" by blast
  with h4'(2) have 6: "fst (consume example_recover ''id-1'' ''msg'' ''signed-by-cd'' ''0xCd''
                 (run example_config example_candidates example_recover example_same_account
                    (snd (consume example_recover ''id-1'' ''msg'' ''signed-by-cd'' ''0xCd'' example_issued))))
            = Inl (Error ''id is not match'')" by simp
  from t5 h5 have 5: "consumed_count example_config example_candidates example_recover ''id-1''
             example_requests [] \<le> 1" by blast
  show ?thesis by (intro conjI) (fact h1 h2 h3 h4 h4' h5 1 2 3 4 6 5)+
qed

text \<open>
  C5 as stated fails: the owner consumes \<open>id-1\<close>, asks for a new challenge, and consumes
  \<open>id-1\<close> again with the same valid signature. The second consume fails with
  \<open>id is not match\<close>, not with \<open>Cannot use a QR code twice\<close>.
\<close>

theorem second_consume_after_reissue:
  "store_ok example_issued
   \<and> example_recover ''msg'' ''signed-by-cd'' = Some ''0xCD''
   \<and> fst (consume example_recover ''id-1'' ''msg'' ''signed-by-cd'' ''0xCd'' example_issued) = Inr ''Done''
   \<and> fst (consume example_recover ''id-1'' ''msg'' ''signed-by-cd'' ''0xCd''
            (run example_config example_candidates example_recover example_same_account
               (snd (consume example_recover ''id-1'' ''msg'' ''signed-by-cd'' ''0xCd'' example_issued))))
      = Inl (Error ''id is not match'')
   \<and> Error ''id is not match'' \<noteq> Error ''Cannot use a QR code twice''"
  by code_simp

text \<open>
  C6, as amended. A consume of an open challenge: when signature recovery throws, the
  call fails with recovery's own error and writes nothing. When it recovers an address
  \<open>r\<close>, the call fails with \<open>The Signature Message Verification Failed\<close>, and writes
  nothing, unless the lower-cased claimed signer equals the lower-cased \<open>r\<close>, the
  lower-cased \<open>r\<close> equals the stored address and the token equals the stored id. When the
  three hold it answers \<open>Done\<close>, and the document then found for the token has the
  stored address, the submitted message and signature, and is closed; on a store with
  one document per address and id, that document is the challenge's own and no other
  document changes.
\<close>

theorem consume_verification:
  assumes "findOne_signedId i db = Some d" and "status d"
  shows
    "(recover msg sig = None \<longrightarrow> consume recover i msg sig signer db = (Inl RecoverFailure, db))
     \<and> (\<forall>r. recover msg sig = Some r \<longrightarrow>
        (\<not> (toLowerCase signer = toLowerCase r \<and> toLowerCase r = signedAddress d \<and> i = signedId d) \<longrightarrow>
           consume recover i msg sig signer db
           = (Inl (Error ''The Signature Message Verification Failed''), db))
        \<and> (toLowerCase signer = toLowerCase r \<and> toLowerCase r = signedAddress d \<and> i = signedId d \<longrightarrow>
           fst (consume recover i msg sig signer db) = Inr ''Done''
           \<and> (\<exists>d'. findOne_signedId i (snd (consume recover i msg sig signer db)) = Some d'
                 \<and> signedAddress d' = signedAddress d \<and> message d' = Some msg
                 \<and> signature d' = Some sig \<and> \<not> status d')
           \<and> (store_ok db \<longrightarrow>
                snd (consume recover i msg sig signer db)
                = map (\<lambda>x. if x = d
                            then x\<lparr> signedId := i, message := Some msg, signature := Some sig,
                                    status := False \<rparr>
                            else x) db)))"
proof (intro conjI impI allI)
  assume "recover msg sig = None"
  then show "consume recover i msg sig signer db = (Inl RecoverFailure, db)"
    using assms by (simp add: consume_def)
next
  fix r
  assume "recover msg sig = Some r"
    and "\<not> (toLowerCase signer = toLowerCase r \<and> toLowerCase r = signedAddress d \<and> i = signedId d)"
  then show "consume recover i msg sig signer db
        = (Inl (Error ''The Signature Message Verification Failed''), db)"
    using assms by (auto simp: consume_def verification_failed_def)
next
  fix r
  assume r: "recover msg sig = Some r"
    and ok: "toLowerCase signer = toLowerCase r \<and> toLowerCase r = signedAddress d \<and> i = signedId d"
  then have c: "consume recover i msg sig signer db
      = (Inr ''Done'', findOneAndUpdate (toLowerCase r)
           (\<lambda>d. d\<lparr> signedId := i, message := Some msg, signature := Some sig, status := False \<rparr>) db)"
    using assms by (simp add: consume_def verification_failed_def)
  then show dn: "fst (consume recover i msg sig signer db) = Inr ''Done''" by simp
  from consume_stores [OF dn] r ok
  show "\<exists>d'. findOne_signedId i (snd (consume recover i msg sig signer db)) = Some d'
              \<and> signedAddress d' = signedAddress d \<and> message d' = Some msg
              \<and> signature d' = Some sig \<and> \<not> status d'"
    by auto
  assume s: "store_ok db"
  from ok have a: "signedAddress d = toLowerCase r" by simp
  show "snd (consume recover i msg sig signer db)
             = map (\<lambda>x. if x = d
                         then x\<lparr> signedId := i, message := Some msg, signature := Some sig,
                                 status := False \<rparr>
                         else x) db"
    using consume_update_effect(1) [where msg = msg and sig = sig, OF s assms(1) a] c by simp
qed

theorem consume_verification_witness:
  "findOne_signedId ''id-1'' example_issued = Some (hd example_issued)
   \<and> status (hd example_issued)
   \<and> example_recover ''msg'' ''signed-by-cd'' = Some ''0xCD''
   \<and> example_recover ''msg'' ''signed-by-ee'' = Some ''0xEE''
   \<and> example_recover ''msg'' ''garbage'' = None
   \<and> toLowerCase ''0xCd'' = toLowerCase ''0xCD''
   \<and> toLowerCase ''0xCD'' = signedAddress (hd example_issued)
   \<and> ''id-1'' = signedId (hd example_issued)
   \<and> store_ok example_issued
   \<and> toLowerCase ''0xCD'' \<noteq> toLowerCase ''0xEE''
   \<and> consume example_recover ''id-1'' ''msg'' ''garbage'' ''0xCd'' example_issued
      = (Inl RecoverFailure, example_issued)
   \<and> consume example_recover ''id-1'' ''msg'' ''signed-by-ee'' ''0xCD'' example_issued
      = (Inl (Error ''The Signature Message Verification Failed''), example_issued)
   \<and> fst (consume example_recover ''id-1'' ''msg'' ''signed-by-cd'' ''0xCd'' example_issued) = Inr ''Done''
   \<and> snd (consume example_recover ''id-1'' ''msg'' ''signed-by-cd'' ''0xCd'' example_issued)
      = example_consumed"
proof -
  have h: "findOne_signedId ''id-1'' example_issued = Some (hd example_issued)"
    "status (hd example_issued)"
    "example_recover ''msg'' ''signed-by-cd'' = Some ''0xCD''"
    "example_recover ''msg'' ''signed-by-ee'' = Some ''0xEE''"
    "example_recover ''msg'' ''garbage'' = None"
    by code_simp+
  have k: "toLowerCase ''0xCd'' = toLowerCase ''0xCD''"
    "toLowerCase ''0xCD'' = signedAddress (hd example_issued)"
    "''id-1'' = signedId (hd example_issued)"
    "store_ok example_issued"
    "toLowerCase ''0xCD'' \<noteq> toLowerCase ''0xEE''"
    by code_simp+
  have m: "map (\<lambda>x. if x = hd example_issued
                    then x\<lparr> signedId := ''id-1'', message := Some ''msg'',
                            signature := Some ''signed-by-cd'', status := False \<rparr>
                    else x) example_issued = example_consumed"
    by code_simp
  from consume_verification [where recover = example_recover and msg = "''msg''"
      and sig = "''garbage''" and signer = "''0xCd''", OF h(1,2)] h(5)
  have 0: "consume example_recover ''id-1'' ''msg'' ''garbage'' ''0xCd'' example_issued
      = (Inl RecoverFailure, example_issued)"
    by blast
  from consume_verification [where recover = example_recover and msg = "''msg''"
      and sig = "''signed-by-ee''" and signer = "''0xCD''", OF h(1,2)] h(4) k(5)
  have 1: "consume example_recover ''id-1'' ''msg'' ''signed-by-ee'' ''0xCD'' example_issued
      = (Inl (Error ''The Signature Message Verification Failed''), example_issued)"
    by blast
  from consume_verification [where recover = example_recover and msg = "''msg''"
      and sig = "''signed-by-cd''" and signer = "''0xCd''", OF h(1,2)] h(3) k(1,2,3,4)
  have 2: "fst (consume example_recover ''id-1'' ''msg'' ''signed-by-cd'' ''0xCd'' example_issued) = Inr ''Done''"
    and 3: "snd (consume example_recover ''id-1'' ''msg'' ''signed-by-cd'' ''0xCd'' example_issued)
      = map (\<lambda>x. if x = hd example_issued
                    then x\<lparr> signedId := ''id-1'', message := Some ''msg'',
                            signature := Some ''signed-by-cd'', status := False \<rparr>
                    else x) example_issued"
    by blast+
  from 3 m have 4: "snd (consume example_recover ''id-1'' ''msg'' ''signed-by-cd'' ''0xCd'' example_issued)
      = example_consumed" by simp
  show ?thesis by (intro conjI) (fact h k 0 1 2 4)+
qed

text \<open>
  C6 as stated fails: on an open challenge, a signature that recovery cannot decode
  makes the call fail with recovery's error, which is not
  \<open>The Signature Message Verification Failed\<close>.
\<close>

theorem consume_undecodable_signature:
  "findOne_signedId ''id-1'' example_issued = Some (hd example_issued)
   \<and> status (hd example_issued)
   \<and> example_recover ''msg'' ''garbage'' = None
   \<and> consume example_recover ''id-1'' ''msg'' ''garbage'' ''0xCd'' example_issued
      = (Inl RecoverFailure, example_issued)
   \<and> RecoverFailure \<noteq> Error ''The Signature Message Verification Failed''"
  by code_simp

text \<open>
  C7. Two consumes of open challenges, each with a recoverable signature and each
  failing at least one of the three comparisons, answer with the same error, the one
  with the message \<open>The Signature Message Verification Failed\<close>, and neither writes to the
  store: which comparison failed does not show.
\<close>

theorem verification_failure_uniform:
  assumes "findOne_signedId i1 db1 = Some d1" and "status d1" and "recover msg1 sig1 = Some r1"
    and "verification_failed (toLowerCase signer1) (toLowerCase r1) i1 d1"
    and "findOne_signedId i2 db2 = Some d2" and "status d2" and "recover msg2 sig2 = Some r2"
    and "verification_failed (toLowerCase signer2) (toLowerCase r2) i2 d2"
  shows "fst (consume recover i1 msg1 sig1 signer1 db1) = fst (consume recover i2 msg2 sig2 signer2 db2)
       \<and> fst (consume recover i1 msg1 sig1 signer1 db1)
           = Inl (Error ''The Signature Message Verification Failed'')
       \<and> snd (consume recover i1 msg1 sig1 signer1 db1) = db1
       \<and> snd (consume recover i2 msg2 sig2 signer2 db2) = db2"
  using assms by (simp add: consume_def)

theorem verification_failure_uniform_witness:
  "verification_failed (toLowerCase ''0xEE'') (toLowerCase ''0xCD'') ''id-1'' (hd example_issued)
   \<and> toLowerCase ''0xEE'' \<noteq> toLowerCase ''0xCD''
   \<and> toLowerCase ''0xCD'' = signedAddress (hd example_issued)
   \<and> verification_failed (toLowerCase ''0xEE'') (toLowerCase ''0xEE'') ''id-1'' (hd example_issued)
   \<and> toLowerCase ''0xEE'' \<noteq> signedAddress (hd example_issued)
   \<and> fst (consume example_recover ''id-1'' ''msg'' ''signed-by-cd'' ''0xEE'' example_issued)
      = fst (consume example_recover ''id-1'' ''other'' ''signed-by-ee'' ''0xEE'' example_issued)
   \<and> fst (consume example_recover ''id-1'' ''msg'' ''signed-by-cd'' ''0xEE'' example_issued)
      = Inl (Error ''The Signature Message Verification Failed'')"
proof -
  have h: "findOne_signedId ''id-1'' example_issued = Some (hd example_issued)"
    "status (hd example_issued)"
    "example_recover ''msg'' ''signed-by-cd'' = Some ''0xCD''"
    "example_recover ''other'' ''signed-by-ee'' = Some ''0xEE''"
    by code_simp+
  have v: "verification_failed (toLowerCase ''0xEE'') (toLowerCase ''0xCD'') ''id-1'' (hd example_issued)"
    "verification_failed (toLowerCase ''0xEE'') (toLowerCase ''0xEE'') ''id-1'' (hd example_issued)"
    by code_simp+
  have k: "toLowerCase ''0xEE'' \<noteq> toLowerCase ''0xCD''"
    "toLowerCase ''0xCD'' = signedAddress (hd example_issued)"
    "toLowerCase ''0xEE'' \<noteq> signedAddress (hd example_issued)"
    by code_simp+
  note u = verification_failure_uniform [where recover = example_recover
      and ?msg1.0 = "''msg''" and ?sig1.0 = "''signed-by-cd''"
      and ?msg2.0 = "''other''" and ?sig2.0 = "''signed-by-ee''",
      OF h(1,2,3) v(1) h(1,2,4) v(2)]
  from u have a: "fst (consume example_recover ''id-1'' ''msg'' ''signed-by-cd'' ''0xEE'' example_issued)
      = fst (consume example_recover ''id-1'' ''other'' ''signed-by-ee'' ''0xEE'' example_issued)"
    by (rule conjunct1)
  from u have b: "fst (consume example_recover ''id-1'' ''msg'' ''signed-by-cd'' ''0xEE'' example_issued)
      = Inl (Error ''The Signature Message Verification Failed'')"
    by blast
  show ?thesis by (intro conjI) (fact v k a b)+
qed

text \<open>
  C8. The claim asks that \<open>issue\<close> succeed for a registered candidate in whatever letter
  case the candidate address is supplied. The handler looks the path parameter up as it
  is: for the candidate stored as \<open>0xab\<close>, the request with \<open>0xab\<close> is answered with a
  challenge and the request with \<open>0xAB\<close> with the 406 text.
\<close>

theorem issue_candidate_case:
  "fst (generateMessage example_config example_candidates ''now'' ''id-1'' ''0xab'' (Some ''0xCD'') [])
     = Inr \<lparr> resp_message = ''[Tomomaster now] I am the owner of candidate [0xab]'',
             resp_url = ''http://localhost:3001/api/candidates/verifyScannedQR?id=id-1'',
             resp_id = ''id-1'' \<rparr>
   \<and> snd (generateMessage example_config example_candidates ''now'' ''id-1'' ''0xab'' (Some ''0xCD'') [])
     = example_issued
   \<and> toLowerCase ''0xAB'' = ''0xab''
   \<and> generateMessage example_config example_candidates ''now'' ''id-1'' ''0xAB'' (Some ''0xCD'') []
     = (Inl (NotAcceptable ''This address is not a candidate''), [])"
  by code_simp

text \<open>
  C10, as amended. Reading does not write: the store after \<open>read_challenge\<close>, after the
  \<open>getSignature\<close> handler and after any number of reads in a row is the store before.
  The handler answers the stored signature for a token whose document is closed and
  \<open>No data\<close> for a token that is unknown or whose document is open (and the validation
  message for a request without a token), and \<open>n\<close> reads in a row give \<open>n\<close> times that
  answer. A closed challenge keeps answering its stored
  signature after every run of requests with fresh uuids that neither issues a new
  challenge for its account nor empties its signature through \<open>PUT /update\<close>.
\<close>

theorem read_leaves_store:
  "snd (read_challenge t db) = db
   \<and> snd (getSignature q db) = db
   \<and> snd (read_repeatedly n t db) = db
   \<and> fst (getSignature None db) = Inl (ValidationErrors [''id is required''])
   \<and> (\<forall>s. findOne_signedId t db = Some s \<and> \<not> status s \<longrightarrow>
        fst (getSignature (Some t) db) = Inr (SignatureOf (signature s))
        \<and> fst (read_repeatedly n t db) = replicate n (SignatureOf (signature s)))
   \<and> (findOne_signedId t db = None \<or> (\<exists>s. findOne_signedId t db = Some s \<and> status s) \<longrightarrow>
        fst (getSignature (Some t) db) = Inr NoData
        \<and> fst (read_repeatedly n t db) = replicate n NoData)
   \<and> (\<forall>s. store_ok db \<and> fresh_ids rs db \<and> findOne_signedId t db = Some s \<and> \<not> status s
          \<and> signedAddress s \<notin> set (issued_accounts cfg cs rs)
          \<and> signedAddress s \<notin> set (cleared_accounts rs) \<longrightarrow>
        fst (getSignature (Some t) (run cfg cs recover rs db)) = Inr (SignatureOf (signature s)))"
proof -
  have "fst (getSignature (Some t) (run cfg cs recover rs db)) = Inr (SignatureOf (signature s))"
    if "store_ok db \<and> fresh_ids rs db \<and> findOne_signedId t db = Some s \<and> \<not> status s
          \<and> signedAddress s \<notin> set (issued_accounts cfg cs rs)
          \<and> signedAddress s \<notin> set (cleared_accounts rs)" for s
    using that by (intro read_after_run) simp_all
  then show ?thesis
    by (auto simp: read_repeatedly_eq getSignature_def read_challenge_def split: option.splits)
qed

theorem read_leaves_store_witness:
  "snd (getSignature (Some ''id-1'') example_consumed) = example_consumed
   \<and> findOne_signedId ''id-1'' example_consumed = Some (hd example_consumed)
   \<and> \<not> status (hd example_consumed)
   \<and> fst (getSignature (Some ''id-1'') example_consumed) = Inr (SignatureOf (Some ''signed-by-cd''))
   \<and> read_repeatedly 3 ''id-1'' example_consumed
      = (replicate 3 (SignatureOf (Some ''signed-by-cd'')), example_consumed)
   \<and> findOne_signedId ''id-1'' example_issued = Some (hd example_issued)
   \<and> status (hd example_issued)
   \<and> fst (getSignature (Some ''id-1'') example_issued) = Inr NoData
   \<and> read_repeatedly 3 ''id-1'' example_issued = (replicate 3 NoData, example_issued)
   \<and> findOne_signedId ''id-9'' example_issued = None
   \<and> fst (getSignature (Some ''id-9'') example_issued) = Inr NoData
   \<and> read_repeatedly 3 ''id-9'' example_issued = (replicate 3 NoData, example_issued)
   \<and> store_ok example_consumed
   \<and> fresh_ids example_other_account example_consumed
   \<and> signedAddress (hd example_consumed)
        \<notin> set (issued_accounts example_config example_candidates example_other_account)
   \<and> signedAddress (hd example_consumed) \<notin> set (cleared_accounts example_other_account)
   \<and> run example_config example_candidates example_recover example_other_account example_consumed
        \<noteq> example_consumed
   \<and> fst (getSignature (Some ''id-1'')
            (run example_config example_candidates example_recover example_other_account
               example_consumed))
      = Inr (SignatureOf (Some ''signed-by-cd''))"
proof -
  have h: "findOne_signedId ''id-1'' example_consumed = Some (hd example_consumed)"
    "\<not> status (hd example_consumed)"
    "findOne_signedId ''id-1'' example_issued = Some (hd example_issued)"
    "status (hd example_issued)"
    "findOne_signedId ''id-9'' example_issued = None"
    by code_simp+
  have sg: "signature (hd example_consumed) = Some ''signed-by-cd''" by code_simp
  have r: "store_ok example_consumed"
    "fresh_ids example_other_account example_consumed"
    "signedAddress (hd example_consumed)
        \<notin> set (issued_accounts example_config example_candidates example_other_account)"
    "signedAddress (hd example_consumed) \<notin> set (cleared_accounts example_other_account)"
    "run example_config example_candidates example_recover example_other_account example_consumed
        \<noteq> example_consumed"
    by code_simp+
  note t1 = read_leaves_store [where t = "''id-1''" and db = example_consumed
      and q = "Some ''id-1''" and n = 3 and rs = example_other_account
      and cfg = example_config and cs = example_candidates and recover = example_recover]
  note t2 = read_leaves_store [where t = "''id-1''" and db = example_issued and n = 3]
  note t3 = read_leaves_store [where t = "''id-9''" and db = example_issued and n = 3]
  from t1 have 0: "snd (getSignature (Some ''id-1'') example_consumed) = example_consumed"
    by blast
  from t1 h(1,2) have "fst (getSignature (Some ''id-1'') example_consumed)
        = Inr (SignatureOf (signature (hd example_consumed)))"
    "fst (read_repeatedly 3 ''id-1'' example_consumed)
        = replicate 3 (SignatureOf (signature (hd example_consumed)))"
    "snd (read_repeatedly 3 ''id-1'' example_consumed) = example_consumed"
    by blast+
  then have 1: "fst (getSignature (Some ''id-1'') example_consumed) = Inr (SignatureOf (Some ''signed-by-cd''))"
    "read_repeatedly 3 ''id-1'' example_consumed
      = (replicate 3 (SignatureOf (Some ''signed-by-cd'')), example_consumed)"
    unfolding sg by (simp_all add: prod_eq_iff)
  from t2 h(3,4) have "fst (getSignature (Some ''id-1'') example_issued) = Inr NoData"
    "fst (read_repeatedly 3 ''id-1'' example_issued) = replicate 3 NoData"
    "snd (read_repeatedly 3 ''id-1'' example_issued) = example_issued"
    by blast+
  then have 2: "fst (getSignature (Some ''id-1'') example_issued) = Inr NoData"
    "read_repeatedly 3 ''id-1'' example_issued = (replicate 3 NoData, example_issued)"
    by (simp_all add: prod_eq_iff)
  from t3 h(5) have "fst (getSignature (Some ''id-9'') example_issued) = Inr NoData"
    "fst (read_repeatedly 3 ''id-9'' example_issued) = replicate 3 NoData"
    "snd (read_repeatedly 3 ''id-9'' example_issued) = example_issued"
    by blast+
  then have 3: "fst (getSignature (Some ''id-9'') example_issued) = Inr NoData"
    "read_repeatedly 3 ''id-9'' example_issued = (replicate 3 NoData, example_issued)"
    by (simp_all add: prod_eq_iff)
  from t1 h(1,2) r(1,2,3,4) have "fst (getSignature (Some ''id-1'')
            (run example_config example_candidates example_recover example_other_account
               example_consumed))
      = Inr (SignatureOf (signature (hd example_consumed)))"
    by blast
  then have 4: "fst (getSignature (Some ''id-1'')
            (run example_config example_candidates example_recover example_other_account
               example_consumed))
      = Inr (SignatureOf (Some ''signed-by-cd''))"
    unfolding sg .
  show ?thesis by (intro conjI) (fact h r 0 1 2 3 4)+
qed

text \<open>
  C10 as stated fails: with no new challenge issued, \<open>PUT /update\<close> empties the stored
  signature of a closed challenge, and the next read answers the empty signature
  instead of the one read before.
\<close>

theorem read_after_signature_reset:
  "findOne_signedId ''id-1'' example_consumed = Some (hd example_consumed)
   \<and> \<not> status (hd example_consumed)
   \<and> fst (getSignature (Some ''id-1'') example_consumed) = Inr (SignatureOf (Some ''signed-by-cd''))
   \<and> generated_ids [ClearSignature ''0xCD''] = []
   \<and> issued_accounts example_config example_candidates [ClearSignature ''0xCD''] = []
   \<and> fst (getSignature (Some ''id-1'')
            (run example_config example_candidates example_recover [ClearSignature ''0xCD'']
               example_consumed))
      = Inr (SignatureOf (Some []))
   \<and> SignatureOf (Some []) \<noteq> SignatureOf (Some ''signed-by-cd'')"
  by code_simp

end
